theory Spec2Isabelle
  imports Complex_Main "HOL-Library.Sublist"
begin

section \<open>Data model of \<^verbatim>\<open>sift_client.ts\<close>\<close>

text \<open>
  The client is a TypeScript class whose methods are asynchronous and talk to a remote
  service through \<^verbatim>\<open>fetch\<close>. The embedding makes every effect explicit: an exception
  (a rejected promise) is the \<open>Inl\<close> side of a sum, the answers of the remote service
  are parameters of the functions, and the requests that were sent are returned as a log.
\<close>

datatype http_method = GET | POST

text \<open>
  Every \<^verbatim>\<open>throw\<close> of the file is a constructor. \<open>HttpFailure\<close> carries the parts of
  the message \<^verbatim>\<open>Sift ${method} ${url} failed: ${res.status} ${res.statusText} ${text}\<close>;
  \<open>FetchRejected\<close> is a rejection of the promise returned by \<^verbatim>\<open>fetch\<close> (a network failure,
  or the abort raised by the timeout); \<open>JsonInvalid\<close> is a rejection of \<^verbatim>\<open>res.json()\<close>;
  \<open>TypeError\<close> is a property read on \<^verbatim>\<open>undefined\<close>.
\<close>

datatype error =
    CallerError string
  | HttpFailure http_method string int string string
  | FetchRejected string
  | JsonInvalid
  | TypeError string
  | UnknownError

record person =
  pid :: string
  teamLeaderId :: "string option"
  directReportCount :: "int option"
  reportingPath :: "string list option"

record fieldMeta =
  objectKey :: string
  displayName :: string
  fieldType :: string

record fields_cache =
  fetchedAt :: int
  cachedItems :: "fieldMeta list"

record client =
  baseUrl :: string
  dataToken :: string
  mediaToken :: "string option"
  timeoutMs :: int
  fieldsTtlMs :: int
  fieldsCache :: "fields_cache option"

record siftClientOptions =
  opt_dataToken :: string
  opt_mediaToken :: "string option"
  opt_baseUrl :: "string option"
  opt_timeoutMs :: "int option"
  opt_fieldsTtlMs :: "int option"

text \<open>\<^verbatim>\<open>s.replace(/\/$/, '')\<close>: one trailing slash is removed.\<close>

definition stripTrailingSlash :: "string \<Rightarrow> string" where
  "stripTrailingSlash s = (if s \<noteq> [] \<and> last s = CHR ''/'' then butlast s else s)"

text \<open>
  The constructor. \<^verbatim>\<open>opts.baseUrl || default\<close> takes the default for an absent and for an
  empty base URL; \<^verbatim>\<open>??\<close> takes it for an absent value only. The fetch implementation is
  a parameter of the transport below, so the check for its presence has no counterpart.
\<close>

definition newSiftClient :: "siftClientOptions \<Rightarrow> error + client" where
  "newSiftClient opts =
     (if opt_dataToken opts = [] then Inl (CallerError ''SiftClient: dataToken is required'')
      else Inr \<lparr> baseUrl = stripTrailingSlash
                    (case opt_baseUrl opts of
                       None \<Rightarrow> ''https://api.justsift.com/v1''
                     | Some b \<Rightarrow> if b = [] then ''https://api.justsift.com/v1'' else b),
                 dataToken = opt_dataToken opts,
                 mediaToken = opt_mediaToken opts,
                 timeoutMs = (case opt_timeoutMs opts of None \<Rightarrow> 15000 | Some t \<Rightarrow> t),
                 fieldsTtlMs = (case opt_fieldsTtlMs opts of None \<Rightarrow> 10 * 60 * 1000 | Some t \<Rightarrow> t),
                 fieldsCache = None \<rparr>)"

section \<open>Transport: \<^verbatim>\<open>requestJsonByUrl\<close>\<close>

text \<open>
  A request as handed to \<^verbatim>\<open>this._fetch(url, { method, headers, body, signal })\<close>. The body
  of a POST is \<^verbatim>\<open>JSON.stringify(body ?? {})\<close>: \<open>EmptyObject\<close> when no body was given.
\<close>

datatype 'b json_payload = EmptyObject | Json 'b

record 'b request =
  req_url :: string
  req_method :: http_method
  req_headers :: "(string \<times> string) list"
  req_body :: "'b json_payload option"

text \<open>
  What the code reads of a response: the status, the status text, the raw
  \<^verbatim>\<open>retry-after\<close> header (\<open>None\<close> when \<^verbatim>\<open>headers.get\<close> returns null), the body as text
  (\<open>None\<close> when \<^verbatim>\<open>res.text()\<close> rejects) and the body as JSON (\<open>None\<close> when
  \<^verbatim>\<open>res.json()\<close> rejects).
\<close>

record 'j response =
  status :: int
  statusText :: string
  retryAfterHeader :: "string option"
  bodyText :: "string option"
  bodyJson :: "'j option"

definition ok :: "('j, 'x) response_scheme \<Rightarrow> bool" where
  "ok res = (200 \<le> status res \<and> status res \<le> 299)"

datatype 'j fetch_outcome = Rejects error | Resolves "'j response"

text \<open>
  The platform the client runs on: \<open>fetch_impl k req\<close> is the outcome of the call to
  \<^verbatim>\<open>fetch\<close> made by attempt \<open>k\<close> (counted from 1), \<open>math_random k\<close> is the value of
  \<^verbatim>\<open>Math.random()\<close> drawn after attempt \<open>k\<close>, and \<open>to_number\<close> is \<^verbatim>\<open>Number\<close> on strings
  (\<open>None\<close> for NaN). Delays are in milliseconds, as passed to \<^verbatim>\<open>setTimeout\<close>; the timeout
  of the whole call shows only as a rejected fetch.
\<close>

record ('b, 'j) platform =
  fetch_impl :: "nat \<Rightarrow> 'b request \<Rightarrow> 'j fetch_outcome"
  math_random :: "nat \<Rightarrow> real"
  to_number :: "string \<Rightarrow> real option"

text \<open>
  What one call of the transport did: its result (\<open>Inr None\<close> is the \<^verbatim>\<open>undefined\<close>
  returned for status 204), the final value of \<^verbatim>\<open>attempt\<close>, the delays it waited and the
  requests it handed to \<^verbatim>\<open>fetch\<close>, in order.
\<close>

record ('b, 'j) transport_result =
  outcome :: "error + 'j option"
  attempts :: nat
  delays :: "real list"
  sent :: "'b request list"

definition maxAttempts :: nat where
  "maxAttempts = 3"

text \<open>\<^verbatim>\<open>Number(res.headers.get('retry-after')) || Math.pow(2, attempt) * 250\<close>:
  \<^verbatim>\<open>Number(null)\<close> is 0, and both 0 and NaN are falsy.\<close>

definition retryAfterDelay :: "('b, 'j) platform \<Rightarrow> 'j response \<Rightarrow> nat \<Rightarrow> real" where
  "retryAfterDelay pf res attempt =
     (case (case retryAfterHeader res of None \<Rightarrow> Some 0 | Some h \<Rightarrow> to_number pf h) of
        None \<Rightarrow> 2 ^ attempt * 250
      | Some n \<Rightarrow> if n = 0 then 2 ^ attempt * 250 else n)"

text \<open>The backoff of the \<^verbatim>\<open>catch\<close> block:
  \<^verbatim>\<open>Math.pow(2, attempt) * 200 + Math.random() * 100\<close>.\<close>

definition catchDelay :: "('b, 'j) platform \<Rightarrow> nat \<Rightarrow> real" where
  "catchDelay pf attempt = 2 ^ attempt * 200 + math_random pf attempt * 100"

text \<open>
  One run of the \<^verbatim>\<open>try\<close> block: it returns a value, sleeps and continues the loop, or
  throws. The \<^verbatim>\<open>throw new Error(...)\<close> for a response that is not ok stands inside the
  \<^verbatim>\<open>try\<close> block, so it is one of the exceptions the \<^verbatim>\<open>catch\<close> block receives.
\<close>

datatype 'j attempt_result = Returned "'j option" | Continue real | Threw error

definition tryAttempt ::
  "('b, 'j) platform \<Rightarrow> 'b request \<Rightarrow> nat \<Rightarrow> 'j attempt_result" where
  "tryAttempt pf req attempt =
     (case fetch_impl pf attempt req of
        Rejects err \<Rightarrow> Threw err
      | Resolves res \<Rightarrow>
          if status res = 204 then Returned None
          else if \<not> ok res then
            (if (status res = 429 \<or> status res \<ge> 500) \<and> attempt < maxAttempts
             then Continue (retryAfterDelay pf res attempt)
             else Threw (HttpFailure (req_method req) (req_url req) (status res) (statusText res)
                           (case bodyText res of None \<Rightarrow> [] | Some t \<Rightarrow> t)))
          else (case bodyJson res of
                  None \<Rightarrow> Threw JsonInvalid
                | Some j \<Rightarrow> Returned (Some j)))"

text \<open>
  The \<^verbatim>\<open>while (attempt < maxAttempts)\<close> loop. \<open>attempt\<close> is the counter before the
  \<^verbatim>\<open>attempt++\<close> of the iteration, \<open>slept\<close> collects the delays waited so far.
\<close>

function requestLoop ::
  "('b, 'j) platform \<Rightarrow> 'b request \<Rightarrow> nat \<Rightarrow> error option \<Rightarrow> real list \<Rightarrow> 'b request list
     \<Rightarrow> ('b, 'j) transport_result" where
  "requestLoop pf req attempt lastErr slept reqs =
     (if attempt < maxAttempts then
        (case tryAttempt pf req (attempt + 1) of
           Returned v \<Rightarrow>
             \<lparr> outcome = Inr v, attempts = attempt + 1, delays = slept, sent = reqs @ [req] \<rparr>
         | Continue d \<Rightarrow> requestLoop pf req (attempt + 1) lastErr (slept @ [d]) (reqs @ [req])
         | Threw err \<Rightarrow>
             if attempt + 1 \<ge> maxAttempts
             then \<lparr> outcome = Inl err, attempts = attempt + 1, delays = slept,
                    sent = reqs @ [req] \<rparr>
             else requestLoop pf req (attempt + 1) (Some err)
                    (slept @ [catchDelay pf (attempt + 1)]) (reqs @ [req]))
      else \<lparr> outcome = Inl (case lastErr of None \<Rightarrow> UnknownError | Some e \<Rightarrow> e),
             attempts = attempt, delays = slept, sent = reqs \<rparr>)"
  by pat_completeness auto
termination
  by (relation "measure (\<lambda>(pf, req, attempt, lastErr, slept, reqs). maxAttempts - attempt)") auto

text \<open>The headers and the body of every attempt of one call.\<close>

definition buildRequest ::
  "client \<Rightarrow> http_method \<Rightarrow> string \<Rightarrow> 'b option \<Rightarrow> 'b request" where
  "buildRequest c m u body =
     \<lparr> req_url = u,
       req_method = m,
       req_headers =
         [(''Authorization'', ''Bearer '' @ dataToken c), (''Accept'', ''application/json'')]
         @ (if m = POST then [(''Content-Type'', ''application/json'')] else []),
       req_body = (if m = POST
                   then Some (case body of None \<Rightarrow> EmptyObject | Some b \<Rightarrow> Json b)
                   else None) \<rparr>"

definition requestJsonByUrl ::
  "client \<Rightarrow> ('b, 'j) platform \<Rightarrow> http_method \<Rightarrow> string \<Rightarrow> 'b option
     \<Rightarrow> ('b, 'j) transport_result" where
  "requestJsonByUrl c pf m u body = requestLoop pf (buildRequest c m u body) 0 None [] []"

definition requestJson ::
  "client \<Rightarrow> ('b, 'j) platform \<Rightarrow> http_method \<Rightarrow> string \<Rightarrow> 'b option
     \<Rightarrow> ('b, 'j) transport_result" where
  "requestJson c pf m path body = requestJsonByUrl c pf m (baseUrl c @ path) body"

section \<open>Core endpoints\<close>

text \<open>
  An endpoint makes zero or more calls of the transport, one after the other. The remote
  side is a family of platforms: \<open>net k\<close> is the platform as it behaves during the
  transport call number \<open>k\<close> of the session (counted from 0). Every endpoint takes the
  list of the transport calls made so far and returns it extended, so the position of a
  call is the length of that list and a call that touches no network leaves it unchanged.
  \<^verbatim>\<open>encodeURIComponent\<close> is a parameter \<open>enc\<close>.
\<close>

type_synonym ('b, 'j) network = "nat \<Rightarrow> ('b, 'j) platform"

type_synonym ('b, 'j) calls = "('b, 'j) transport_result list"

text \<open>The envelope \<^verbatim>\<open>{ data: T }\<close> of a JSON answer; \<^verbatim>\<open>data\<close> may be missing.\<close>

record 'a envelope =
  data :: "'a option"

text \<open>
  \<^verbatim>\<open>!idOrEmail\<close> holds of \<^verbatim>\<open>undefined\<close> (\<open>None\<close>) and of the empty string.
\<close>

definition falsy :: "string option \<Rightarrow> bool" where
  "falsy s = (case s of None \<Rightarrow> True | Some v \<Rightarrow> v = [])"

definition getPerson ::
  "client \<Rightarrow> (string \<Rightarrow> string) \<Rightarrow> ('b, person envelope) network \<Rightarrow> string option
     \<Rightarrow> ('b, person envelope) calls \<Rightarrow> (error + person option) \<times> ('b, person envelope) calls" where
  "getPerson c enc net idOrEmail calls =
     (case idOrEmail of
        None \<Rightarrow> (Inl (CallerError ''getPerson: idOrEmail is required''), calls)
      | Some key \<Rightarrow>
          if key = [] then (Inl (CallerError ''getPerson: idOrEmail is required''), calls)
          else
            let t = requestJson c (net (length calls)) GET (''/people/'' @ enc key) None in
            (case outcome t of
               Inl e \<Rightarrow> (Inl e, calls @ [t])
             | Inr resp \<Rightarrow>
                 (Inr (case resp of None \<Rightarrow> None | Some r \<Rightarrow> data r), calls @ [t])))"

text \<open>
  \<^verbatim>\<open>getFields\<close> reads the clock once (\<open>now\<close> is the value of \<^verbatim>\<open>Date.now()\<close>) and owns
  the only mutable state of the client, the cache; the client is returned updated.
\<close>

definition cacheFresh :: "client \<Rightarrow> int \<Rightarrow> bool" where
  "cacheFresh c now =
     (case fieldsCache c of None \<Rightarrow> False | Some fc \<Rightarrow> now - fetchedAt fc < fieldsTtlMs c)"

text \<open>\<^verbatim>\<open>resp?.data ?? []\<close>\<close>

definition fieldsOfAnswer :: "fieldMeta list envelope option \<Rightarrow> fieldMeta list" where
  "fieldsOfAnswer resp =
     (case resp of None \<Rightarrow> [] | Some r \<Rightarrow> (case data r of None \<Rightarrow> [] | Some d \<Rightarrow> d))"

text \<open>The transport call of \<^verbatim>\<open>getFields\<close>:
  \<^verbatim>\<open>this.requestJson('GET', '/fields/person')\<close> as call number \<open>length calls\<close>.\<close>

definition fieldsRequest ::
  "client \<Rightarrow> ('b, fieldMeta list envelope) network \<Rightarrow> ('b, fieldMeta list envelope) calls
     \<Rightarrow> ('b, fieldMeta list envelope) transport_result" where
  "fieldsRequest c net calls = requestJson c (net (length calls)) GET ''/fields/person'' None"

definition getFields ::
  "client \<Rightarrow> ('b, fieldMeta list envelope) network \<Rightarrow> bool \<Rightarrow> int
     \<Rightarrow> ('b, fieldMeta list envelope) calls
     \<Rightarrow> (error + fieldMeta list) \<times> client \<times> ('b, fieldMeta list envelope) calls" where
  "getFields c net forceRefresh now calls =
     (if \<not> forceRefresh \<and> cacheFresh c now
      then (Inr (case fieldsCache c of None \<Rightarrow> [] | Some fc \<Rightarrow> cachedItems fc), c, calls)
      else
        let t = fieldsRequest c net calls in
        (case outcome t of
           Inl e \<Rightarrow> (Inl e, c, calls @ [t])
         | Inr resp \<Rightarrow>
             let items = fieldsOfAnswer resp
             in (Inr items,
                 c\<lparr>fieldsCache := Some \<lparr> fetchedAt = now, cachedItems = items \<rparr>\<rparr>,
                 calls @ [t])))"

subsection \<open>Search and pagination\<close>

datatype comparison =
  Eq | Neq | Gt | Gte | Lt | Lte | In | Nin | Exists | NotExists | Contains

record condition =
  cond_field :: string
  cond_comparison :: comparison
  cond_value :: string

record searchPostBody =
  body_page :: int
  body_pageSize :: int
  body_filter :: condition

record links =
  link_self :: "string option"
  link_next :: "string option"
  link_prev :: "string option"
  link_first :: "string option"
  link_last :: "string option"

record searchResponse =
  sr_data :: "person list option"
  sr_links :: "links option"

definition searchPeoplePost ::
  "client \<Rightarrow> (searchPostBody, searchResponse) platform \<Rightarrow> searchPostBody
     \<Rightarrow> (searchPostBody, searchResponse) transport_result" where
  "searchPeoplePost c pf body = requestJson c pf POST ''/search/people'' (Some body)"

definition followSearchNext ::
  "client \<Rightarrow> (searchPostBody, searchResponse) platform \<Rightarrow> string
     \<Rightarrow> (searchPostBody, searchResponse) transport_result" where
  "followSearchNext c pf nextUrl = requestJsonByUrl c pf GET nextUrl None"

text \<open>\<^verbatim>\<open>resp.links?.next\<close> when it is truthy: present and not the empty string.\<close>

definition nextLink :: "searchResponse \<Rightarrow> string option" where
  "nextLink resp =
     (case sr_links resp of
        None \<Rightarrow> None
      | Some l \<Rightarrow> (case link_next l of
                    None \<Rightarrow> None
                  | Some u \<Rightarrow> if u = [] then None else Some u))"

text \<open>\<^verbatim>\<open>resp.data || []\<close>\<close>

definition pageItems :: "searchResponse \<Rightarrow> person list" where
  "pageItems resp = (case sr_data resp of None \<Rightarrow> [] | Some d \<Rightarrow> d)"

text \<open>
  \<^verbatim>\<open>dedupeById\<close>: the loop over \<^verbatim>\<open>arr\<close> with the set \<^verbatim>\<open>seen\<close> and the array \<^verbatim>\<open>out\<close>.
  \<^verbatim>\<open>x.id ?? ''\<close> is \<open>pid x\<close> on the declared type, where the identifier is a string.
\<close>

fun dedupeByIdLoop :: "person list \<Rightarrow> string set \<Rightarrow> person list \<Rightarrow> person list" where
  "dedupeByIdLoop [] seen out = out"
| "dedupeByIdLoop (x # arr) seen out =
     (if pid x = [] \<or> pid x \<in> seen then dedupeByIdLoop arr seen out
      else dedupeByIdLoop arr (insert (pid x) seen) (out @ [x]))"

definition dedupeById :: "person list \<Rightarrow> person list" where
  "dedupeById arr = dedupeByIdLoop arr {} []"

text \<open>
  \<^verbatim>\<open>dedupe\<close> is \<^verbatim>\<open>Array.from(new Set(arr))\<close>: a set of JavaScript keeps its elements in
  the order of their first insertion.
\<close>

definition dedupe :: "'a list \<Rightarrow> 'a list" where
  "dedupe arr = foldl (\<lambda>s x. if x \<in> set s then s else s @ [x]) [] arr"

text \<open>
  The loop \<^verbatim>\<open>while (resp.links?.next)\<close> of \<^verbatim>\<open>getDirectReports\<close>. Nothing bounds the
  number of pages a server may chain, so the loop takes fuel: \<open>None\<close> is a loop that
  has not ended within \<open>fuel\<close> iterations. A 204 answer leaves \<^verbatim>\<open>resp\<close> undefined and
  the read of \<^verbatim>\<open>resp.data\<close> throws.
\<close>

fun followPages ::
  "nat \<Rightarrow> client \<Rightarrow> (searchPostBody, searchResponse) network \<Rightarrow> searchResponse \<Rightarrow> person list
     \<Rightarrow> (searchPostBody, searchResponse) calls
     \<Rightarrow> ((error + person list) \<times> (searchPostBody, searchResponse) calls) option" where
  "followPages fuel c net resp out calls =
     (case nextLink resp of
        None \<Rightarrow> Some (Inr out, calls)
      | Some u \<Rightarrow>
          (case fuel of
             0 \<Rightarrow> None
           | Suc n \<Rightarrow>
               let t = followSearchNext c (net (length calls)) u in
               (case outcome t of
                  Inl e \<Rightarrow> Some (Inl e, calls @ [t])
                | Inr None \<Rightarrow> Some (Inl (TypeError ''resp.data''), calls @ [t])
                | Inr (Some r) \<Rightarrow> followPages n c net r (out @ pageItems r) (calls @ [t]))))"

definition clampPageSize :: "int option \<Rightarrow> int" where
  "clampPageSize pageSize = min (max 1 (case pageSize of None \<Rightarrow> 100 | Some p \<Rightarrow> p)) 100"

definition directReportsBody :: "string \<Rightarrow> int \<Rightarrow> searchPostBody" where
  "directReportsBody managerId sz =
     \<lparr> body_page = 1, body_pageSize = sz,
       body_filter = \<lparr> cond_field = ''teamLeaderId'', cond_comparison = Eq,
                       cond_value = managerId \<rparr> \<rparr>"

definition getDirectReports ::
  "nat \<Rightarrow> client \<Rightarrow> (searchPostBody, searchResponse) network \<Rightarrow> string option \<Rightarrow> int option
     \<Rightarrow> (searchPostBody, searchResponse) calls
     \<Rightarrow> ((error + person list) \<times> (searchPostBody, searchResponse) calls) option" where
  "getDirectReports fuel c net managerId pageSize calls =
     (case managerId of
        None \<Rightarrow> Some (Inl (CallerError ''getDirectReports: managerId is required''), calls)
      | Some mid \<Rightarrow>
          if mid = [] then Some (Inl (CallerError ''getDirectReports: managerId is required''), calls)
          else
            let sz = clampPageSize pageSize;
                t = searchPeoplePost c (net (length calls)) (directReportsBody mid sz)
            in (case outcome t of
                  Inl e \<Rightarrow> Some (Inl e, calls @ [t])
                | Inr None \<Rightarrow> Some (Inl (TypeError ''resp.data''), calls @ [t])
                | Inr (Some resp) \<Rightarrow>
                    (case followPages fuel c net resp (pageItems resp) (calls @ [t]) of
                       None \<Rightarrow> None
                     | Some (Inl e, calls') \<Rightarrow> Some (Inl e, calls')
                     | Some (Inr out, calls') \<Rightarrow> Some (Inr (dedupeById out), calls'))))"

text \<open>
  A predicate for the statements about pagination, not a part of the client: starting
  from the page \<open>resp\<close>, the transport calls \<open>entries\<close> (the first of them call number
  \<open>k\<close>) are the GET requests of the successive next links, they are answered with the
  pages \<open>pages\<close>, and the last page has no next link.
\<close>

fun followsNextLinks ::
  "client \<Rightarrow> (searchPostBody, searchResponse) network \<Rightarrow> nat \<Rightarrow> searchResponse
     \<Rightarrow> searchResponse list \<Rightarrow> (searchPostBody, searchResponse) calls \<Rightarrow> bool" where
  "followsNextLinks c net k resp [] [] = (nextLink resp = None)"
| "followsNextLinks c net k resp (r # pages) (t # entries) =
     (case nextLink resp of
        None \<Rightarrow> False
      | Some u \<Rightarrow> t = followSearchNext c (net k) u \<and> outcome t = Inr (Some r)
                  \<and> followsNextLinks c net (Suc k) r pages entries)"
| "followsNextLinks c net k resp [] (t # entries) = False"
| "followsNextLinks c net k resp (r # pages) [] = False"

section \<open>Media URLs: \<^verbatim>\<open>makeMediaUrl\<close>\<close>

datatype mediaKind = ProfilePhoto | BackgroundPhoto

datatype preferredPhotoType = Custom | Official

datatype fitMode = Crop | Scale

record mediaOpts =
  preferredType :: "preferredPhotoType option"
  height :: "int option"
  width :: "int option"
  fit :: "fitMode option"
  tokenInQuery :: bool

text \<open>
  A \<^verbatim>\<open>URL\<close> object as the helper uses it: \<^verbatim>\<open>searchParams\<close> is the list of the pairs
  of the query, in order; \<open>url_rest\<close> is everything else the object holds (scheme, host,
  normalised path, fragment), which the helper never touches.
\<close>

record url =
  url_rest :: string
  searchParams :: "(string \<times> string) list"

text \<open>
  \<^verbatim>\<open>searchParams.set(k, v)\<close>: the first pair named \<open>k\<close> takes the value \<open>v\<close> and every
  later pair named \<open>k\<close> is removed; when no pair is named \<open>k\<close>, the pair is appended.
\<close>

fun paramsSet :: "(string \<times> string) list \<Rightarrow> string \<Rightarrow> string \<Rightarrow> (string \<times> string) list" where
  "paramsSet [] k v = [(k, v)]"
| "paramsSet (kv # ps) k v =
     (if fst kv = k then (k, v) # filter (\<lambda>kv'. fst kv' \<noteq> k) ps
      else kv # paramsSet ps k v)"

text \<open>
  The functions of the language the helper calls, as parameters: \<^verbatim>\<open>encodeURIComponent\<close>,
  \<^verbatim>\<open>String\<close> on a number, the parser \<^verbatim>\<open>new URL(s)\<close> (\<open>None\<close> when it throws its
  TypeError; a query that \<open>s\<close> carries is in the parameters of the object, and the path
  is normalised) and the serialiser \<^verbatim>\<open>url.toString()\<close>.
\<close>

record builtins =
  encodeURIComponent :: "string \<Rightarrow> string"
  numberToString :: "int \<Rightarrow> string"
  parseUrl :: "string \<Rightarrow> url option"
  urlToString :: "url \<Rightarrow> string"

definition kindString :: "mediaKind \<Rightarrow> string" where
  "kindString k = (case k of ProfilePhoto \<Rightarrow> ''profile-photo'' | BackgroundPhoto \<Rightarrow> ''background-photo'')"

definition preferredTypeString :: "preferredPhotoType \<Rightarrow> string" where
  "preferredTypeString t = (case t of Custom \<Rightarrow> ''custom'' | Official \<Rightarrow> ''official'')"

definition fitString :: "fitMode \<Rightarrow> string" where
  "fitString f = (case f of Crop \<Rightarrow> ''crop'' | Scale \<Rightarrow> ''scale'')"

text \<open>A guarded update \<^verbatim>\<open>if (v) url.searchParams.set(k, v)\<close>, where \<open>None\<close> is a
  value that fails the guard.\<close>

definition setIfPresent :: "url \<Rightarrow> string \<Rightarrow> string option \<Rightarrow> url" where
  "setIfPresent u k v =
     (case v of None \<Rightarrow> u | Some s \<Rightarrow> u\<lparr>searchParams := paramsSet (searchParams u) k s\<rparr>)"

text \<open>The template string \<^verbatim>\<open>`${this.baseUrl}/media/people/${encoded}/${kind}`\<close>.\<close>

definition mediaUrlString :: "client \<Rightarrow> builtins \<Rightarrow> string \<Rightarrow> mediaKind \<Rightarrow> string" where
  "mediaUrlString c js idOrEmail kind =
     baseUrl c @ ''/media/people/'' @ encodeURIComponent js idOrEmail @ ''/'' @ kindString kind"

text \<open>
  The five guarded updates of \<^verbatim>\<open>makeMediaUrl\<close> on the parsed object \<open>u0\<close>. The guard of
  the last one is \<^verbatim>\<open>opts.tokenInQuery && this.mediaToken\<close>.
\<close>

definition mediaParams :: "client \<Rightarrow> builtins \<Rightarrow> mediaOpts \<Rightarrow> url \<Rightarrow> url" where
  "mediaParams c js opts u0 =
     (let u1 = setIfPresent u0 ''preferredType'' (map_option preferredTypeString (preferredType opts));
          u2 = setIfPresent u1 ''height'' (map_option (numberToString js) (height opts));
          u3 = setIfPresent u2 ''width'' (map_option (numberToString js) (width opts));
          u4 = setIfPresent u3 ''fit'' (map_option fitString (fit opts))
      in setIfPresent u4 ''token''
           (if tokenInQuery opts \<and> \<not> falsy (mediaToken c) then mediaToken c else None))"

text \<open>The \<^verbatim>\<open>URL\<close> object just before \<^verbatim>\<open>url.toString()\<close>, or the TypeError of the parser.\<close>

definition mediaUrl ::
  "client \<Rightarrow> builtins \<Rightarrow> string \<Rightarrow> mediaKind \<Rightarrow> mediaOpts \<Rightarrow> error + url" where
  "mediaUrl c js idOrEmail kind opts =
     (case parseUrl js (mediaUrlString c js idOrEmail kind) of
        None \<Rightarrow> Inl (TypeError ''Invalid URL'')
      | Some u0 \<Rightarrow> Inr (mediaParams c js opts u0))"

definition makeMediaUrl ::
  "client \<Rightarrow> builtins \<Rightarrow> string \<Rightarrow> mediaKind \<Rightarrow> mediaOpts \<Rightarrow> error + string" where
  "makeMediaUrl c js idOrEmail kind opts =
     (case mediaUrl c js idOrEmail kind opts of
        Inl e \<Rightarrow> Inl e
      | Inr u \<Rightarrow> Inr (urlToString js u))"

section \<open>The subtree walk: \<^verbatim>\<open>getOrgSubtree\<close>\<close>

record edge =
  leaderId :: "string option"
  personId :: string

record queueItem =
  q_leaderId :: "string option"
  q_id :: string
  q_depth :: nat

record stats =
  expanded :: nat
  enqueued :: nat
  apiCalls :: nat
  depthReached :: nat
  truncated :: bool

record orgSubtreeResult =
  manager :: "person option"
  nodes :: "person list"
  edges :: "edge list"
  stats :: stats

record subtreeOpts =
  includeManager :: bool
  maxDepth :: "int option"
  maxNodes :: "int option"
  pageSize :: "int option"

text \<open>
  The local variables of the walk. \<^verbatim>\<open>nodesMap\<close> is a \<^verbatim>\<open>Map\<close>, which keeps its keys in the
  order of insertion: a list of pairs. \<open>w_edgeDepths\<close> is an auxiliary variable that is not
  in the source and never read by the walk: next to every edge it records the depth of the
  queue entry whose expansion pushed the edge.
\<close>

record walk =
  w_nodesMap :: "(string \<times> person) list"
  w_edges :: "edge list"
  w_queue :: "queueItem list"
  w_apiCalls :: nat
  w_expanded :: nat
  w_depthReached :: nat
  w_edgeDepths :: "nat list"

definition mapHas :: "(string \<times> person) list \<Rightarrow> string \<Rightarrow> bool" where
  "mapHas m k = (k \<in> fst ` set m)"

definition mapSet :: "(string \<times> person) list \<Rightarrow> string \<Rightarrow> person \<Rightarrow> (string \<times> person) list" where
  "mapSet m k v =
     (if mapHas m k then map (\<lambda>kv. if fst kv = k then (k, v) else kv) m else m @ [(k, v)])"

text \<open>
  The loop \<^verbatim>\<open>for (const p of drs)\<close>. The first component of the result tells whether the
  loop left through the \<^verbatim>\<open>return\<close> of the node cap.
\<close>

fun forReports :: "int \<Rightarrow> nat \<Rightarrow> person list \<Rightarrow> walk \<Rightarrow> bool \<times> walk" where
  "forReports maxN depth [] w = (False, w)"
| "forReports maxN depth (p # drs) w =
     (let w1 = w\<lparr> w_edges := w_edges w @ [\<lparr> leaderId = teamLeaderId p, personId = pid p \<rparr>],
                  w_edgeDepths := w_edgeDepths w @ [depth] \<rparr>
      in if \<not> mapHas (w_nodesMap w1) (pid p) then
           (let w2 = w1\<lparr> w_nodesMap := mapSet (w_nodesMap w1) (pid p) p \<rparr>
            in if int (length (w_nodesMap w2)) \<ge> maxN then (True, w2)
               else if (case directReportCount p of None \<Rightarrow> 0 | Some n \<Rightarrow> n) > 0
               then forReports maxN depth drs
                      (w2\<lparr> w_queue := w_queue w2 @
                             [\<lparr> q_leaderId = teamLeaderId p, q_id = pid p, q_depth = depth + 1 \<rparr>] \<rparr>)
               else forReports maxN depth drs w2)
         else forReports maxN depth drs w1)"

text \<open>
  The walk calls two methods of the client, which are parameters here: \<open>gp key\<close> is the
  outcome of \<^verbatim>\<open>this.getPerson(key)\<close>, and \<open>gdr k id pageSize\<close> is the outcome of the call
  \<^verbatim>\<open>this.getDirectReports(id, pageSize)\<close> that the walk makes when \<^verbatim>\<open>apiCalls\<close> is \<open>k\<close>, so
  that the service may answer the same question differently at different times.

  The loop \<^verbatim>\<open>while (queue.length > 0)\<close>: the result is an error thrown by a call, or the
  final variables together with the flag of the \<^verbatim>\<open>return\<close> that was taken.
\<close>

function walkLoop ::
  "(nat \<Rightarrow> string \<Rightarrow> int \<Rightarrow> error + person list) \<Rightarrow> int \<Rightarrow> int \<Rightarrow> int \<Rightarrow> walk
     \<Rightarrow> error + bool \<times> walk" where
  "walkLoop gdr maxD maxN ps w =
     (case w_queue w of
        [] \<Rightarrow> Inr (False, w)
      | q # rest \<Rightarrow>
          if int (q_depth q) \<ge> maxD
          then walkLoop gdr maxD maxN ps
                 (w\<lparr> w_queue := rest, w_depthReached := max (w_depthReached w) (q_depth q) \<rparr>)
          else
            (case gdr (w_apiCalls w) (q_id q) ps of
               Inl e \<Rightarrow> Inl e
             | Inr drs \<Rightarrow>
                 (case forReports maxN (q_depth q) drs
                         (w\<lparr> w_queue := rest,
                             w_apiCalls := w_apiCalls w + 1,
                             w_expanded := w_expanded w + 1,
                             w_depthReached := max (w_depthReached w) (q_depth q + 1) \<rparr>) of
                    (capped, w') \<Rightarrow>
                      if capped then Inr (True, w') else walkLoop gdr maxD maxN ps w')))"
  by pat_completeness auto

definition mkResult :: "person option \<Rightarrow> bool \<Rightarrow> walk \<Rightarrow> orgSubtreeResult" where
  "mkResult mgr trunc w =
     \<lparr> manager = mgr,
       nodes = map snd (w_nodesMap w),
       edges = w_edges w,
       stats = \<lparr> expanded = w_expanded w, enqueued = length (w_nodesMap w),
                 apiCalls = w_apiCalls w, depthReached = w_depthReached w,
                 truncated = trunc \<rparr> \<rparr>"

text \<open>\<^verbatim>\<open>await this.getPerson(managerIdOrEmail).catch(() => null)\<close>\<close>

definition resolveManager :: "(string \<Rightarrow> error + person option) \<Rightarrow> string \<Rightarrow> person option" where
  "resolveManager gp key = (case gp key of Inl e \<Rightarrow> None | Inr m \<Rightarrow> m)"

definition effMaxDepth :: "subtreeOpts \<Rightarrow> int" where
  "effMaxDepth opts = (case maxDepth opts of None \<Rightarrow> 6 | Some d \<Rightarrow> d)"

definition effMaxNodes :: "subtreeOpts \<Rightarrow> int" where
  "effMaxNodes opts = max 1 (case maxNodes opts of None \<Rightarrow> 1000 | Some n \<Rightarrow> n)"

text \<open>The node map after \<^verbatim>\<open>if (opts.includeManager && manager && manager.id)\<close>.\<close>

definition seedNodes :: "subtreeOpts \<Rightarrow> person option \<Rightarrow> (string \<times> person) list" where
  "seedNodes opts mgr =
     (case mgr of
        None \<Rightarrow> []
      | Some m \<Rightarrow> if includeManager opts \<and> pid m \<noteq> [] then mapSet [] (pid m) m else [])"

definition initialWalk :: "subtreeOpts \<Rightarrow> person option \<Rightarrow> string \<Rightarrow> walk" where
  "initialWalk opts mgr managerIdOrEmail =
     \<lparr> w_nodesMap = seedNodes opts mgr,
       w_edges = [],
       w_queue = [\<lparr> q_leaderId = None,
                    q_id = (case mgr of None \<Rightarrow> managerIdOrEmail | Some m \<Rightarrow> pid m),
                    q_depth = 0 \<rparr>],
       w_apiCalls = 0,
       w_expanded = 0,
       w_depthReached = 0,
       w_edgeDepths = [] \<rparr>"

text \<open>The walk up to its \<^verbatim>\<open>return\<close>, with the final variables still visible.\<close>

definition subtreeWalk ::
  "(string \<Rightarrow> error + person option) \<Rightarrow> (nat \<Rightarrow> string \<Rightarrow> int \<Rightarrow> error + person list)
     \<Rightarrow> string \<Rightarrow> subtreeOpts \<Rightarrow> error + bool \<times> walk" where
  "subtreeWalk gp gdr managerIdOrEmail opts =
     walkLoop gdr (effMaxDepth opts) (effMaxNodes opts) (clampPageSize (pageSize opts))
       (initialWalk opts (resolveManager gp managerIdOrEmail) managerIdOrEmail)"

definition getOrgSubtree ::
  "(string \<Rightarrow> error + person option) \<Rightarrow> (nat \<Rightarrow> string \<Rightarrow> int \<Rightarrow> error + person list)
     \<Rightarrow> string \<Rightarrow> subtreeOpts \<Rightarrow> error + orgSubtreeResult" where
  "getOrgSubtree gp gdr managerIdOrEmail opts =
     (case subtreeWalk gp gdr managerIdOrEmail opts of
        Inl e \<Rightarrow> Inl e
      | Inr (trunc, w) \<Rightarrow> Inr (mkResult (resolveManager gp managerIdOrEmail) trunc w))"

section \<open>The reporting chain: \<^verbatim>\<open>getOrgChain\<close>\<close>



text \<open>
  \<open>gp\<close> is the outcome of \<^verbatim>\<open>this.getPerson\<close>, as above. A person that came back
  \<^verbatim>\<open>undefined\<close> makes the read of \<^verbatim>\<open>person.reportingPath\<close> throw; a leader that came
  back \<^verbatim>\<open>undefined\<close> is an element of the chain like any other.
\<close>



section \<open>Example inputs\<close>

text \<open>A client as the unit tests of the repository build it, and scripted platforms.\<close>

definition exClient :: client where
  "exClient = \<lparr> baseUrl = ''https://api.justsift.com/v1'', dataToken = ''fake-data-token'',
                 mediaToken = Some ''fake-media-token'', timeoutMs = 15000,
                 fieldsTtlMs = 600000, fieldsCache = None \<rparr>"

definition exResponse :: "int \<Rightarrow> string \<Rightarrow> 'j option \<Rightarrow> 'j response" where
  "exResponse s txt j =
     \<lparr> status = s, statusText = [], retryAfterHeader = None, bodyText = Some txt, bodyJson = j \<rparr>"

text \<open>A platform whose fetch always resolves, attempt \<open>k\<close> with \<open>answers k\<close>, and whose
  random numbers are all \<open>r\<close>.\<close>

definition exPlatform :: "(nat \<Rightarrow> 'j response) \<Rightarrow> real \<Rightarrow> ('b, 'j) platform" where
  "exPlatform answers r =
     \<lparr> fetch_impl = (\<lambda>k req. Resolves (answers k)), math_random = (\<lambda>k. r),
       to_number = (\<lambda>s. None) \<rparr>"

definition always404 :: "nat \<Rightarrow> nat response" where
  "always404 k = exResponse 404 ''no such person'' None"

definition notFoundThenOk :: "nat \<Rightarrow> nat response" where
  "notFoundThenOk k = (if k = 1 then exResponse 404 ''no such person'' None
                       else exResponse 200 [] (Some 7))"

definition unavailableTwiceThenOk :: "nat \<Rightarrow> nat response" where
  "unavailableTwiceThenOk k = (if k < 3 then exResponse 503 ''busy'' None
                               else exResponse 200 [] (Some 7))"

text \<open>
  Stand-ins for the functions of the language, which agree with them on the URLs of the
  examples: those have no query, no fragment and nothing to encode or to normalise.
\<close>

fun joinWith :: "string \<Rightarrow> string list \<Rightarrow> string" where
  "joinWith sep [] = []"
| "joinWith sep [x] = x"
| "joinWith sep (x # y # xs) = x @ sep @ joinWith sep (y # xs)"

definition exUrlToString :: "url \<Rightarrow> string" where
  "exUrlToString u =
     url_rest u @
     (if searchParams u = [] then []
      else ''?'' @ joinWith ''&'' (map (\<lambda>kv. fst kv @ ''='' @ snd kv) (searchParams u)))"

definition exBuiltins :: builtins where
  "exBuiltins = \<lparr> encodeURIComponent = (\<lambda>s. s),
                   numberToString = (\<lambda>n. if n = 128 then ''128'' else ''0''),
                   parseUrl = (\<lambda>s. Some \<lparr> url_rest = s, searchParams = [] \<rparr>),
                   urlToString = exUrlToString \<rparr>"

text \<open>
  A parser for a client whose base URL is \<^verbatim>\<open>https://x.test/v1?token=abc\<close>: the template
  string continues the query of the base URL, so the parsed object has the path
  \<^verbatim>\<open>/v1\<close> and one parameter, \<^verbatim>\<open>token\<close>, with the value
  \<^verbatim>\<open>abc/media/people/p1/profile-photo\<close>.
\<close>

definition exQueryBuiltins :: builtins where
  "exQueryBuiltins = exBuiltins\<lparr> parseUrl := (\<lambda>s. Some \<lparr> url_rest = ''https://x.test/v1'',
                        searchParams = [(''token'', ''abc/media/people/p1/profile-photo'')] \<rparr>) \<rparr>"

definition exMediaOpts :: "bool \<Rightarrow> mediaOpts" where
  "exMediaOpts tok = \<lparr> preferredType = Some Official, height = Some 128, width = None,
                       fit = None, tokenInQuery = tok \<rparr>"

text \<open>A network whose every transport call sees the same platform.\<close>

definition exNetwork :: "(nat \<Rightarrow> 'j response) \<Rightarrow> ('b, 'j) network" where
  "exNetwork answers = (\<lambda>k. exPlatform answers 0)"

definition exFields :: "fieldMeta list" where
  "exFields = [\<lparr> objectKey = ''department'', displayName = ''Department'', fieldType = ''string'' \<rparr>]"

definition fieldsAnswer :: "nat \<Rightarrow> fieldMeta list envelope response" where
  "fieldsAnswer k = exResponse 200 [] (Some \<lparr> data = Some exFields \<rparr>)"

text \<open>
  The organisation of the scenario of the specification: the root has the direct
  subordinates A and B, A has A1 and A2, B has none.
\<close>

definition exPerson :: "string \<Rightarrow> string \<Rightarrow> int \<Rightarrow> person" where
  "exPerson i leader n =
     \<lparr> pid = i, teamLeaderId = Some leader, directReportCount = Some n, reportingPath = None \<rparr>"

definition exRoot :: person where
  "exRoot = \<lparr> pid = ''root'', teamLeaderId = None, directReportCount = Some 2,
               reportingPath = Some [] \<rparr>"

definition exGetPerson :: "string \<Rightarrow> error + person option" where
  "exGetPerson key =
     (if key = ''root'' then Inr (Some exRoot)
      else Inl (HttpFailure GET (''https://api.justsift.com/v1/people/'' @ key) 404 [] []))"

definition exReports :: "nat \<Rightarrow> string \<Rightarrow> int \<Rightarrow> error + person list" where
  "exReports k i ps =
     (if i = ''root'' then Inr [exPerson ''A'' ''root'' 2, exPerson ''B'' ''root'' 0]
      else if i = ''A'' then Inr [exPerson ''A1'' ''A'' 0, exPerson ''A2'' ''A'' 0]
      else Inr [])"

definition exSubtreeOpts :: "bool \<Rightarrow> int \<Rightarrow> int \<Rightarrow> subtreeOpts" where
  "exSubtreeOpts inc d n =
     \<lparr> includeManager = inc, maxDepth = Some d, maxNodes = Some n, pageSize = None \<rparr>"

text \<open>
  The service of the unit test of the cache: the first transport call is answered with
  one schema, every later one with another.
\<close>

definition exFields2 :: "fieldMeta list" where
  "exFields2 = [\<lparr> objectKey = ''teamLeaderId'', displayName = ''Leader'', fieldType = ''string'' \<rparr>]"

definition exFieldsNetwork :: "(unit, fieldMeta list envelope) network" where
  "exFieldsNetwork k =
     exPlatform (\<lambda>a. exResponse 200 [] (Some \<lparr> data = Some (if k = 0 then exFields else exFields2) \<rparr>)) 0"

text \<open>A service that answers the request for the fields with 503 twice and then with
  the schema, and one that answers it with 404.\<close>

definition exSlowFieldsNetwork :: "(unit, fieldMeta list envelope) network" where
  "exSlowFieldsNetwork k =
     exPlatform (\<lambda>a. if a < 3 then exResponse 503 ''busy'' None
                      else exResponse 200 [] (Some \<lparr> data = Some exFields \<rparr>)) 0"

definition exNoFieldsNetwork :: "(unit, fieldMeta list envelope) network" where
  "exNoFieldsNetwork k = exPlatform (\<lambda>a. exResponse 404 ''gone'' None) 0"

text \<open>The example client with the schema \<open>items\<close> cached at time \<open>t\<close>.\<close>

definition exCached :: "int \<Rightarrow> fieldMeta list \<Rightarrow> client" where
  "exCached t items = exClient\<lparr>fieldsCache := Some \<lparr> fetchedAt = t, cachedItems = items \<rparr>\<rparr>"

definition exOptions :: siftClientOptions where
  "exOptions = \<lparr> opt_dataToken = ''fake-data-token'', opt_mediaToken = Some ''fake-media-token'',
                  opt_baseUrl = None, opt_timeoutMs = None, opt_fieldsTtlMs = None \<rparr>"

definition exUrl :: string where
  "exUrl = ''https://api.justsift.com/v1/people/x''"

text \<open>A platform without network, and one that answers the first attempt with status
  429 and the header \<^verbatim>\<open>retry-after: 2\<close>, which asks for two seconds.\<close>

definition exOffline :: "real \<Rightarrow> (unit, nat) platform" where
  "exOffline r =
     \<lparr> fetch_impl = (\<lambda>k req. Rejects (FetchRejected ''fetch failed'')), math_random = (\<lambda>k. r),
       to_number = (\<lambda>s. None) \<rparr>"

definition exRateLimited :: "(unit, nat) platform" where
  "exRateLimited =
     \<lparr> fetch_impl = (\<lambda>k req. Resolves
                        (if k = 1
                         then \<lparr> status = 429, statusText = [], retryAfterHeader = Some ''2'',
                                bodyText = Some [], bodyJson = None \<rparr>
                         else exResponse 200 [] (Some 7))),
       math_random = (\<lambda>k. 0),
       to_number = (\<lambda>s. if s = ''2'' then Some 2 else None) \<rparr>"




text \<open>
  The service of the unit test of pagination: a first page with a and b and a next link,
  a second page that repeats b (with another count of reports, to tell the two apart) and
  adds c. The second service answers the POST with 503 before it answers it with a first
  page that also holds an entity whose identifier is empty.
\<close>

definition exNoLinks :: links where
  "exNoLinks = \<lparr> link_self = None, link_next = None, link_prev = None, link_first = None,
                  link_last = None \<rparr>"

definition exPage1 :: searchResponse where
  "exPage1 = \<lparr> sr_data = Some [exPerson ''a'' ''mgr'' 0, exPerson ''b'' ''mgr'' 0],
                sr_links = Some (exNoLinks\<lparr> link_next :=
                             Some ''https://api.justsift.com/v1/search/people?page=2'' \<rparr>) \<rparr>"

definition exPage2 :: searchResponse where
  "exPage2 = \<lparr> sr_data = Some [exPerson ''b'' ''mgr'' 5, exPerson ''c'' ''mgr'' 0],
                sr_links = None \<rparr>"

definition exPage1Anonymous :: searchResponse where
  "exPage1Anonymous = exPage1\<lparr> sr_data :=
       Some [exPerson [] ''mgr'' 0, exPerson ''a'' ''mgr'' 0, exPerson ''b'' ''mgr'' 0] \<rparr>"

definition exSearchNetwork :: "(searchPostBody, searchResponse) network" where
  "exSearchNetwork k = exPlatform (\<lambda>a. exResponse 200 [] (Some (if k = 0 then exPage1 else exPage2))) 0"

definition exFlakySearchNetwork :: "(searchPostBody, searchResponse) network" where
  "exFlakySearchNetwork k =
     exPlatform (\<lambda>a. if k = 0 \<and> a = 1 then exResponse 503 ''busy'' None
                      else exResponse 200 [] (Some (if k = 0 then exPage1Anonymous else exPage2))) 0"

text \<open>An organisation whose root has two direct subordinates without subordinates of
  their own.\<close>

definition exLeafReports :: "nat \<Rightarrow> string \<Rightarrow> int \<Rightarrow> error + person list" where
  "exLeafReports k i ps =
     (if i = ''root'' then Inr [exPerson ''B1'' ''root'' 0, exPerson ''B2'' ''root'' 0]
      else Inr [])"

section \<open>Termination of the walk\<close>

lemma forReports_measure:
  "forReports maxN depth drs w = (False, w') \<Longrightarrow>
   length (w_queue w') + nat (maxN - int (length (w_nodesMap w')))
     \<le> length (w_queue w) + nat (maxN - int (length (w_nodesMap w)))"
proof (induction drs arbitrary: w)
  case Nil
  then show ?case by simp
next
  case (Cons p drs)
  then show ?case
    by (auto simp: Let_def mapSet_def split: if_splits dest!: Cons.IH)
qed

lemma forReports_measure_sym:
  "(False, w') = forReports maxN depth drs w \<Longrightarrow>
   length (w_queue w') + nat (maxN - int (length (w_nodesMap w')))
     \<le> length (w_queue w) + nat (maxN - int (length (w_nodesMap w)))"
  using forReports_measure [of maxN depth drs w w'] by simp

termination walkLoop
  apply (relation "measure (\<lambda>(gdr, maxD, maxN, ps, w).
                   length (w_queue w) + nat (maxN - int (length (w_nodesMap w))))")
    apply simp
   apply simp
  apply clarsimp
  apply (drule forReports_measure_sym)
  apply simp
  done

declare walkLoop.simps [simp del]

declare requestLoop.simps [simp del]

section \<open>Transport: attempts, retries and headers\<close>

lemmas transport_eval =
  requestJsonByUrl_def requestJson_def buildRequest_def tryAttempt_def maxAttempts_def ok_def
  retryAfterDelay_def catchDelay_def exPlatform_def exResponse_def requestLoop.simps

text \<open>
  Two answers with status 503 and then one with status 200: the call succeeds with the
  third attempt, after waiting 500 and 1000 milliseconds.
\<close>

lemma requestJsonByUrl_503_503_200:
  "requestJsonByUrl exClient (exPlatform unavailableTwiceThenOk 0 :: (unit, nat) platform)
       GET ''https://api.justsift.com/v1/people/x'' None
     = \<lparr> outcome = Inr (Some 7), attempts = 3, delays = [500, 1000],
         sent = replicate 3 (buildRequest exClient GET ''https://api.justsift.com/v1/people/x'' None) \<rparr>"
  by (simp add: transport_eval unavailableTwiceThenOk_def exClient_def numeral_3_eq_3)

text \<open>
  C2. The claim: a single 404 answer fails the call at once, after exactly one attempt,
  and only status 429, a status from 500 on and a failure of the network are retried.
  On the code: the error for a status that is not retried is thrown inside the
  \<^verbatim>\<open>try\<close> block, the \<^verbatim>\<open>catch\<close> block of the same loop receives it, and the loop
  goes on. A service that answers 404 to every attempt is asked three times before the
  error (with the status and the body text) comes out; with a 404 followed by a 200 the
  call succeeds at the second attempt.
\<close>

theorem requestJsonByUrl_404_retried:
  "requestJsonByUrl exClient (exPlatform always404 0 :: (unit, nat) platform)
       GET ''https://api.justsift.com/v1/people/x'' None
     = \<lparr> outcome = Inl (HttpFailure GET ''https://api.justsift.com/v1/people/x'' 404 []
                          ''no such person''),
         attempts = 3, delays = [400, 800],
         sent = replicate 3 (buildRequest exClient GET ''https://api.justsift.com/v1/people/x'' None) \<rparr>
   \<and> outcome (requestJsonByUrl exClient (exPlatform notFoundThenOk 0 :: (unit, nat) platform)
                GET ''https://api.justsift.com/v1/people/x'' None) = Inr (Some 7)
   \<and> attempts (requestJsonByUrl exClient (exPlatform notFoundThenOk 0 :: (unit, nat) platform)
                 GET ''https://api.justsift.com/v1/people/x'' None) = 2"
  by (simp add: transport_eval always404_def notFoundThenOk_def exClient_def numeral_3_eq_3)

subsection \<open>The requests of one call\<close>

lemma replicate_cons_diff:
  "Suc a \<le> n \<Longrightarrow> x # replicate (n - Suc a) x = replicate (n - a) x"
proof -
  assume "Suc a \<le> n"
  then have "n - a = Suc (n - Suc a)" by simp
  then show ?thesis by simp
qed

text \<open>Every attempt hands the same request to \<^verbatim>\<open>fetch\<close>, and there are at most three.\<close>

lemma requestLoop_sent:
  "attempt \<le> maxAttempts \<Longrightarrow>
   sent (requestLoop pf req attempt lastErr slept reqs)
     = reqs @ replicate (attempts (requestLoop pf req attempt lastErr slept reqs) - attempt) req
   \<and> attempt \<le> attempts (requestLoop pf req attempt lastErr slept reqs)
   \<and> attempts (requestLoop pf req attempt lastErr slept reqs) \<le> maxAttempts"
proof (induction pf req attempt lastErr slept reqs rule: requestLoop.induct)
  case (1 pf req attempt lastErr slept reqs)
  show ?case
  proof (cases "attempt < maxAttempts")
    case False
    then have "requestLoop pf req attempt lastErr slept reqs =
       \<lparr> outcome = Inl (case lastErr of None \<Rightarrow> UnknownError | Some e \<Rightarrow> e),
         attempts = attempt, delays = slept, sent = reqs \<rparr>"
      by (subst requestLoop.simps) simp
    with 1(3) show ?thesis by simp
  next
    case True
    show ?thesis
    proof (cases "tryAttempt pf req (attempt + 1)")
      case (Returned v)
      with True have "requestLoop pf req attempt lastErr slept reqs =
         \<lparr> outcome = Inr v, attempts = attempt + 1, delays = slept, sent = reqs @ [req] \<rparr>"
        by (subst requestLoop.simps) simp
      with True show ?thesis by simp
    next
      case (Continue d)
      with True have "requestLoop pf req attempt lastErr slept reqs =
         requestLoop pf req (attempt + 1) lastErr (slept @ [d]) (reqs @ [req])"
        by (subst requestLoop.simps) simp
      with True 1(1) [OF True Continue] show ?thesis
        by (simp add: replicate_cons_diff)
    next
      case (Threw err)
      show ?thesis
      proof (cases "attempt + 1 \<ge> maxAttempts")
        case True
        with Threw \<open>attempt < maxAttempts\<close>
        have "requestLoop pf req attempt lastErr slept reqs =
          \<lparr> outcome = Inl err, attempts = attempt + 1, delays = slept, sent = reqs @ [req] \<rparr>"
          by (subst requestLoop.simps) simp
        with \<open>attempt < maxAttempts\<close> show ?thesis
          by simp
      next
        case False
        with Threw \<open>attempt < maxAttempts\<close>
        have "requestLoop pf req attempt lastErr slept reqs =
          requestLoop pf req (attempt + 1) (Some err)
            (slept @ [catchDelay pf (attempt + 1)]) (reqs @ [req])"
          by (subst requestLoop.simps) simp
        with \<open>attempt < maxAttempts\<close> 1(2) [OF \<open>attempt < maxAttempts\<close> Threw False]
        show ?thesis
          by (simp add: replicate_cons_diff)
      qed
    qed
  qed
qed

lemma requestJsonByUrl_sent:
  "sent (requestJsonByUrl c pf m u b)
     = replicate (attempts (requestJsonByUrl c pf m u b)) (buildRequest c m u b)"
  using requestLoop_sent [of 0 pf "buildRequest c m u b" None "[]" "[]"]
  by (simp add: requestJsonByUrl_def)

lemma requestJsonByUrl_attempts:
  "1 \<le> attempts (requestJsonByUrl c pf m u b) \<and> attempts (requestJsonByUrl c pf m u b) \<le> 3"
proof -
  have "requestJsonByUrl c pf m u b
          = (case tryAttempt pf (buildRequest c m u b) 1 of
               Returned v \<Rightarrow> \<lparr> outcome = Inr v, attempts = 1, delays = [],
                                sent = [buildRequest c m u b] \<rparr>
             | Continue d \<Rightarrow> requestLoop pf (buildRequest c m u b) 1 None [d] [buildRequest c m u b]
             | Threw err \<Rightarrow> requestLoop pf (buildRequest c m u b) 1 (Some err)
                               [catchDelay pf 1] [buildRequest c m u b])"
    unfolding requestJsonByUrl_def
    by (subst requestLoop.simps) (simp add: maxAttempts_def split: attempt_result.splits)
  moreover have "\<And>e s r. 1 \<le> attempts (requestLoop pf (buildRequest c m u b) 1 e s r)
                        \<and> attempts (requestLoop pf (buildRequest c m u b) 1 e s r) \<le> 3"
    using requestLoop_sent [of 1 pf "buildRequest c m u b"] by (simp add: maxAttempts_def)
  ultimately show ?thesis
    by (simp split: attempt_result.splits)
qed

lemma requestJsonByUrl_mediaToken:
  "requestJsonByUrl (c\<lparr>mediaToken := t\<rparr>) pf m u b = requestJsonByUrl c pf m u b"
  by (simp add: requestJsonByUrl_def buildRequest_def)

subsection \<open>Media URLs\<close>

lemma map_of_filter_other:
  "k' \<noteq> k \<Longrightarrow> map_of (filter (\<lambda>kv. fst kv \<noteq> k) ps) k' = map_of ps k'"
  by (induction ps) auto

lemma map_of_paramsSet:
  "map_of (paramsSet ps k v) k' = (if k' = k then Some v else map_of ps k')"
  by (induction ps) (auto simp: map_of_filter_other)

lemma map_of_setIfPresent:
  "map_of (searchParams (setIfPresent u k v)) k'
     = (if k' = k \<and> v \<noteq> None then v else map_of (searchParams u) k')"
  by (cases v) (simp_all add: setIfPresent_def map_of_paramsSet)

lemma mediaParams_token:
  "map_of (searchParams (mediaParams c js opts u0)) ''token''
     = (if tokenInQuery opts \<and> \<not> falsy (mediaToken c) then mediaToken c
        else map_of (searchParams u0) ''token'')"
  by (auto simp: mediaParams_def Let_def map_of_setIfPresent falsy_def split: option.splits)

lemma mediaParams_without_token:
  "\<not> tokenInQuery opts \<Longrightarrow> mediaParams (c\<lparr>mediaToken := t\<rparr>) js opts u0 = mediaParams c js opts u0"
  by (simp add: mediaParams_def)

lemma mediaParams_dataToken:
  "mediaParams (c\<lparr>dataToken := d\<rparr>) js opts u0 = mediaParams c js opts u0"
  by (simp add: mediaParams_def)

lemma makeMediaUrl_without_token:
  "\<not> tokenInQuery opts \<Longrightarrow>
   makeMediaUrl (c\<lparr>mediaToken := t\<rparr>) js i k opts = makeMediaUrl c js i k opts"
  by (simp add: makeMediaUrl_def mediaUrl_def mediaUrlString_def mediaParams_without_token
        split: option.splits)

lemma makeMediaUrl_dataToken:
  "makeMediaUrl (c\<lparr>dataToken := d\<rparr>) js i k opts = makeMediaUrl c js i k opts"
  by (simp add: makeMediaUrl_def mediaUrl_def mediaUrlString_def mediaParams_dataToken
        split: option.splits)

text \<open>
  C9. Every request of a JSON call is the one request built from the method, the URL and
  the body; its headers are \<^verbatim>\<open>Authorization: Bearer <data token>\<close>, \<^verbatim>\<open>Accept\<close> and, for
  a POST, \<^verbatim>\<open>Content-Type\<close>; and the whole call is the same whatever the media token
  is, so the media token is in no header. For the media URL, let \<open>u0\<close> be the object the
  parser makes of the template string. When \<^verbatim>\<open>tokenInQuery\<close> is set and a non-empty media
  token is configured, the parameter \<^verbatim>\<open>token\<close> of the result is the media token; in
  every other case it is what \<open>u0\<close> already had under that name (nothing, when the base
  URL carries no such parameter). Without \<^verbatim>\<open>tokenInQuery\<close> the returned string does not
  depend on the media token at all, and it never depends on the data token.
\<close>

theorem tokens_kept_apart:
  "sent (requestJsonByUrl c pf m u b)
     = replicate (attempts (requestJsonByUrl c pf m u b)) (buildRequest c m u b)
   \<and> req_headers (buildRequest c m u b)
     = [(''Authorization'', ''Bearer '' @ dataToken c), (''Accept'', ''application/json'')]
       @ (if m = POST then [(''Content-Type'', ''application/json'')] else [])
   \<and> requestJsonByUrl (c\<lparr>mediaToken := t\<rparr>) pf m u b = requestJsonByUrl c pf m u b
   \<and> (parseUrl js (mediaUrlString c js i k) = Some u0
      \<longrightarrow> mediaUrl c js i k opts = Inr (mediaParams c js opts u0)
        \<and> map_of (searchParams (mediaParams c js opts u0)) ''token''
            = (if tokenInQuery opts \<and> \<not> falsy (mediaToken c) then mediaToken c
               else map_of (searchParams u0) ''token''))
   \<and> (\<not> tokenInQuery opts \<longrightarrow>
        makeMediaUrl (c\<lparr>mediaToken := t\<rparr>) js i k opts = makeMediaUrl c js i k opts)
   \<and> makeMediaUrl (c\<lparr>dataToken := d\<rparr>) js i k opts = makeMediaUrl c js i k opts"
  by (simp add: requestJsonByUrl_sent requestJsonByUrl_mediaToken mediaParams_token
        makeMediaUrl_without_token makeMediaUrl_dataToken mediaUrl_def)
    (simp add: buildRequest_def)

text \<open>
  The URLs of the example client, with and without \<^verbatim>\<open>tokenInQuery\<close>; and a client whose
  base URL is \<^verbatim>\<open>https://x.test/v1?token=abc\<close>, where the parameter \<^verbatim>\<open>token\<close> of the result
  is the one of the base URL as long as \<^verbatim>\<open>tokenInQuery\<close> is not set.
\<close>

theorem tokens_kept_apart_witness:
  "makeMediaUrl (exClient\<lparr>mediaToken := Some ''another-token''\<rparr>) exBuiltins ''p1'' ProfilePhoto
       (exMediaOpts False)
     = makeMediaUrl exClient exBuiltins ''p1'' ProfilePhoto (exMediaOpts False)
   \<and> makeMediaUrl exClient exBuiltins ''p1'' ProfilePhoto (exMediaOpts False)
     = Inr ''https://api.justsift.com/v1/media/people/p1/profile-photo?preferredType=official&height=128''
   \<and> makeMediaUrl exClient exBuiltins ''p1'' ProfilePhoto (exMediaOpts True)
     = Inr ''https://api.justsift.com/v1/media/people/p1/profile-photo?preferredType=official&height=128&token=fake-media-token''
   \<and> map_of (searchParams (mediaParams exClient exBuiltins (exMediaOpts True)
         \<lparr> url_rest = ''https://api.justsift.com/v1/media/people/p1/profile-photo'',
           searchParams = [] \<rparr>)) ''token'' = Some ''fake-media-token''
   \<and> map_of (searchParams (mediaParams (exClient\<lparr>baseUrl := ''https://x.test/v1?token=abc''\<rparr>)
         exQueryBuiltins (exMediaOpts False)
         \<lparr> url_rest = ''https://x.test/v1'',
           searchParams = [(''token'', ''abc/media/people/p1/profile-photo'')] \<rparr>)) ''token''
       = Some ''abc/media/people/p1/profile-photo''"
proof -
  have plain: "makeMediaUrl exClient exBuiltins ''p1'' ProfilePhoto (exMediaOpts False)
     = Inr ''https://api.justsift.com/v1/media/people/p1/profile-photo?preferredType=official&height=128''"
    by (simp add: exMediaOpts_def makeMediaUrl_def mediaUrl_def mediaUrlString_def
          mediaParams_def setIfPresent_def exBuiltins_def exUrlToString_def exClient_def
          kindString_def preferredTypeString_def falsy_def)
  have token: "makeMediaUrl exClient exBuiltins ''p1'' ProfilePhoto (exMediaOpts True)
     = Inr ''https://api.justsift.com/v1/media/people/p1/profile-photo?preferredType=official&height=128&token=fake-media-token''"
    by (simp add: exMediaOpts_def makeMediaUrl_def mediaUrl_def mediaUrlString_def
          mediaParams_def setIfPresent_def exBuiltins_def exUrlToString_def exClient_def
          kindString_def preferredTypeString_def falsy_def)
  have parsed: "parseUrl exBuiltins (mediaUrlString exClient exBuiltins ''p1'' ProfilePhoto)
     = Some \<lparr> url_rest = ''https://api.justsift.com/v1/media/people/p1/profile-photo'',
              searchParams = [] \<rparr>"
    by (simp add: exBuiltins_def mediaUrlString_def exClient_def kindString_def)
  have parsed': "parseUrl exQueryBuiltins
       (mediaUrlString (exClient\<lparr>baseUrl := ''https://x.test/v1?token=abc''\<rparr>) exQueryBuiltins
          ''p1'' ProfilePhoto)
     = Some \<lparr> url_rest = ''https://x.test/v1'',
              searchParams = [(''token'', ''abc/media/people/p1/profile-photo'')] \<rparr>"
    by (simp add: exQueryBuiltins_def)
  from tokens_kept_apart [of exClient "exPlatform always404 0 :: (unit, nat) platform" GET "''u''"
          None "Some ''another-token''" exBuiltins "''p1''" ProfilePhoto
          "\<lparr> url_rest = ''https://api.justsift.com/v1/media/people/p1/profile-photo'',
             searchParams = [] \<rparr>" "exMediaOpts True" "''d''"] parsed
  have a: "map_of (searchParams (mediaParams exClient exBuiltins (exMediaOpts True)
         \<lparr> url_rest = ''https://api.justsift.com/v1/media/people/p1/profile-photo'',
           searchParams = [] \<rparr>)) ''token'' = Some ''fake-media-token''"
    by (simp add: exMediaOpts_def exClient_def falsy_def)
  from tokens_kept_apart [of exClient "exPlatform always404 0 :: (unit, nat) platform" GET "''u''"
          None "Some ''another-token''" exBuiltins "''p1''" ProfilePhoto
          "\<lparr> url_rest = ''https://api.justsift.com/v1/media/people/p1/profile-photo'',
             searchParams = [] \<rparr>" "exMediaOpts False" "''d''"]
  have b: "makeMediaUrl (exClient\<lparr>mediaToken := Some ''another-token''\<rparr>) exBuiltins ''p1''
             ProfilePhoto (exMediaOpts False)
           = makeMediaUrl exClient exBuiltins ''p1'' ProfilePhoto (exMediaOpts False)"
    by (simp add: exMediaOpts_def)
  from tokens_kept_apart [of "exClient\<lparr>baseUrl := ''https://x.test/v1?token=abc''\<rparr>"
          "exPlatform always404 0 :: (unit, nat) platform" GET "''u''"
          None "Some ''another-token''" exQueryBuiltins "''p1''" ProfilePhoto
          "\<lparr> url_rest = ''https://x.test/v1'',
             searchParams = [(''token'', ''abc/media/people/p1/profile-photo'')] \<rparr>"
          "exMediaOpts False" "''d''"] parsed'
  have c: "map_of (searchParams (mediaParams (exClient\<lparr>baseUrl := ''https://x.test/v1?token=abc''\<rparr>)
         exQueryBuiltins (exMediaOpts False)
         \<lparr> url_rest = ''https://x.test/v1'',
           searchParams = [(''token'', ''abc/media/people/p1/profile-photo'')] \<rparr>)) ''token''
       = Some ''abc/media/people/p1/profile-photo''"
    by (simp add: exMediaOpts_def)
  from plain token a b c show ?thesis by (intro conjI)
qed

subsection \<open>Backoff delays\<close>

lemma tryAttempt_Continue:
  "tryAttempt pf req k = Continue d \<Longrightarrow> k < maxAttempts"
  by (auto simp: tryAttempt_def split: fetch_outcome.splits if_splits option.splits)

lemma take_snoc_split:
  assumes "take (Suc n) xs = ys @ [d]" and "length ys = n"
  shows "take n xs = ys" and "xs ! n = d"
proof -
  have "take n xs = take n (take (Suc n) xs)" by (simp add: min_def)
  also have "\<dots> = ys" using assms by simp
  finally show "take n xs = ys" .
  have "xs ! n = take (Suc n) xs ! n" by simp
  also have "\<dots> = d" using assms by (simp add: nth_append)
  finally show "xs ! n = d" .
qed

text \<open>The delay the loop waits after attempt \<open>k\<close>, when it waits at all.\<close>

lemma requestLoop_delays:
  "attempt < maxAttempts \<Longrightarrow> length slept = attempt \<Longrightarrow>
   length (delays (requestLoop pf req attempt lastErr slept reqs)) + 1
     = attempts (requestLoop pf req attempt lastErr slept reqs)
   \<and> (\<forall>i. attempt \<le> i \<and> i < length (delays (requestLoop pf req attempt lastErr slept reqs)) \<longrightarrow>
          delays (requestLoop pf req attempt lastErr slept reqs) ! i
            = (case tryAttempt pf req (i + 1) of
                 Continue d \<Rightarrow> d
               | Threw e \<Rightarrow> catchDelay pf (i + 1)
               | Returned v \<Rightarrow> 0))
   \<and> take attempt (delays (requestLoop pf req attempt lastErr slept reqs)) = slept"
proof (induction pf req attempt lastErr slept reqs rule: requestLoop.induct)
  case (1 pf req attempt lastErr slept reqs)
  note lt = \<open>attempt < maxAttempts\<close> and len = \<open>length slept = attempt\<close>
  show ?case
  proof (cases "tryAttempt pf req (attempt + 1)")
    case (Returned v)
    with lt have "requestLoop pf req attempt lastErr slept reqs =
       \<lparr> outcome = Inr v, attempts = attempt + 1, delays = slept, sent = reqs @ [req] \<rparr>"
      by (subst requestLoop.simps) simp
    with len show ?thesis by simp
  next
    case (Continue d)
    with lt have eq: "requestLoop pf req attempt lastErr slept reqs =
       requestLoop pf req (attempt + 1) lastErr (slept @ [d]) (reqs @ [req])"
      by (subst requestLoop.simps) simp
    from Continue have lt': "attempt + 1 < maxAttempts"
      by (rule tryAttempt_Continue)
    from len have len': "length (slept @ [d]) = attempt + 1" by simp
    note IH = 1(1) [OF lt Continue lt' len']
    let ?r = "requestLoop pf req (attempt + 1) lastErr (slept @ [d]) (reqs @ [req])"
    from IH have tk: "take (attempt + 1) (delays ?r) = slept @ [d]" by simp
    then have tk2: "take (Suc attempt) (delays ?r) = slept @ [d]" by simp
    from take_snoc_split [OF tk2 len]
    have tk': "take attempt (delays ?r) = slept" and at: "delays ?r ! attempt = d" .
    show ?thesis
      unfolding eq
    proof (intro conjI allI impI)
      from IH show "length (delays ?r) + 1 = attempts ?r" by simp
      from tk' show "take attempt (delays ?r) = slept" .
    next
      fix i assume i: "attempt \<le> i \<and> i < length (delays ?r)"
      show "delays ?r ! i = (case tryAttempt pf req (i + 1) of
                 Continue d \<Rightarrow> d
               | Threw e \<Rightarrow> catchDelay pf (i + 1)
               | Returned v \<Rightarrow> 0)"
      proof (cases "i = attempt")
        case True
        with at Continue show ?thesis by simp
      next
        case False
        with i have "attempt + 1 \<le> i \<and> i < length (delays ?r)" by simp
        with IH show ?thesis by blast
      qed
    qed
  next
    case (Threw err)
    show ?thesis
    proof (cases "attempt + 1 \<ge> maxAttempts")
      case True
      with Threw lt have "requestLoop pf req attempt lastErr slept reqs =
        \<lparr> outcome = Inl err, attempts = attempt + 1, delays = slept, sent = reqs @ [req] \<rparr>"
        by (subst requestLoop.simps) simp
      with len show ?thesis by simp
    next
      case False
      let ?d = "catchDelay pf (attempt + 1)"
      from False Threw lt have eq: "requestLoop pf req attempt lastErr slept reqs =
        requestLoop pf req (attempt + 1) (Some err) (slept @ [?d]) (reqs @ [req])"
        by (subst requestLoop.simps) simp
      from False have lt': "attempt + 1 < maxAttempts" by simp
      from len have len': "length (slept @ [?d]) = attempt + 1" by simp
      note IH = 1(2) [OF lt Threw False lt' len']
      let ?r = "requestLoop pf req (attempt + 1) (Some err) (slept @ [?d]) (reqs @ [req])"
      from IH have tk: "take (attempt + 1) (delays ?r) = slept @ [?d]" by simp
      then have tk2: "take (Suc attempt) (delays ?r) = slept @ [?d]" by simp
      from take_snoc_split [OF tk2 len]
      have tk': "take attempt (delays ?r) = slept" and at: "delays ?r ! attempt = ?d" .
      show ?thesis
        unfolding eq
      proof (intro conjI allI impI)
        from IH show "length (delays ?r) + 1 = attempts ?r" by simp
        from tk' show "take attempt (delays ?r) = slept" .
      next
        fix i assume i: "attempt \<le> i \<and> i < length (delays ?r)"
        show "delays ?r ! i = (case tryAttempt pf req (i + 1) of
                   Continue d \<Rightarrow> d
                 | Threw e \<Rightarrow> catchDelay pf (i + 1)
                 | Returned v \<Rightarrow> 0)"
        proof (cases "i = attempt")
          case True
          with at Threw show ?thesis by simp
        next
          case False
          with i have "attempt + 1 \<le> i \<and> i < length (delays ?r)" by simp
          with IH show ?thesis by blast
        qed
      qed
    qed
  qed
qed

text \<open>
  C6, as the code has it by design. The call waits once after every attempt but the
  last. After an attempt whose answer has status 429 or at least 500 and carries no
  \<^verbatim>\<open>retry-after\<close> header, the delay is exactly \<open>250 * 2 ^ attempt\<close> milliseconds, with no
  jitter. After an attempt whose fetch failed, the delay is \<open>200 * 2 ^ attempt\<close>
  milliseconds plus a hundred times the random number. (What the loop waits when the
  header is there is not part of this statement.)
\<close>

theorem retry_delays:
  "length (delays (requestJsonByUrl c pf m u b)) + 1 = attempts (requestJsonByUrl c pf m u b)
   \<and> (i < length (delays (requestJsonByUrl c pf m u b))
        \<and> fetch_impl pf (i + 1) (buildRequest c m u b) = Resolves res
        \<and> (status res = 429 \<or> 500 \<le> status res)
        \<and> retryAfterHeader res = None
      \<longrightarrow> delays (requestJsonByUrl c pf m u b) ! i = 2 ^ (i + 1) * 250)
   \<and> (i < length (delays (requestJsonByUrl c pf m u b))
        \<and> fetch_impl pf (i + 1) (buildRequest c m u b) = Rejects e
      \<longrightarrow> delays (requestJsonByUrl c pf m u b) ! i
            = 2 ^ (i + 1) * 200 + math_random pf (i + 1) * 100)"
proof -
  let ?req = "buildRequest c m u b"
  let ?r = "requestJsonByUrl c pf m u b"
  have inv: "length (delays ?r) + 1 = attempts ?r
     \<and> (\<forall>i. 0 \<le> i \<and> i < length (delays ?r) \<longrightarrow>
          delays ?r ! i = (case tryAttempt pf ?req (i + 1) of
                             Continue d \<Rightarrow> d
                           | Threw e \<Rightarrow> catchDelay pf (i + 1)
                           | Returned v \<Rightarrow> 0))"
    using requestLoop_delays [of 0 "[]" pf ?req None "[]"]
    by (simp add: requestJsonByUrl_def maxAttempts_def)
  from requestJsonByUrl_attempts [of c pf m u b] inv
  have short: "length (delays ?r) \<le> 2" by simp
  show ?thesis
  proof (intro conjI impI)
    from inv show "length (delays ?r) + 1 = attempts ?r" by simp
  next
    assume a: "i < length (delays ?r) \<and> fetch_impl pf (i + 1) ?req = Resolves res
               \<and> (status res = 429 \<or> 500 \<le> status res) \<and> retryAfterHeader res = None"
    with short have "i + 1 < maxAttempts" by (simp add: maxAttempts_def)
    with a have "tryAttempt pf ?req (i + 1) = Continue (retryAfterDelay pf res (i + 1))"
      by (auto simp: tryAttempt_def ok_def)
    with a inv have "delays ?r ! i = retryAfterDelay pf res (i + 1)" by simp
    with a show "delays ?r ! i = 2 ^ (i + 1) * 250"
      by (simp add: retryAfterDelay_def)
  next
    assume a: "i < length (delays ?r) \<and> fetch_impl pf (i + 1) ?req = Rejects e"
    then have "tryAttempt pf ?req (i + 1) = Threw e"
      by (simp add: tryAttempt_def)
    with a inv have "delays ?r ! i = catchDelay pf (i + 1)" by simp
    then show "delays ?r ! i = 2 ^ (i + 1) * 200 + math_random pf (i + 1) * 100"
      by (simp add: catchDelay_def)
  qed
qed

text \<open>Two calls of the example client: two answers 503 without the header, and no
  network with the random number one half.\<close>

theorem retry_delays_witness:
  "delays (requestJsonByUrl exClient (exPlatform unavailableTwiceThenOk (1 / 2) :: (unit, nat) platform)
             GET exUrl None) ! 1 = 1000
   \<and> delays (requestJsonByUrl exClient (exOffline (1 / 2)) GET exUrl None) ! 0 = 450"
proof -
  have d1: "delays (requestJsonByUrl exClient
                     (exPlatform unavailableTwiceThenOk (1 / 2) :: (unit, nat) platform)
                     GET exUrl None) = [500, 1000]"
    by (simp add: transport_eval unavailableTwiceThenOk_def)
  have d3: "delays (requestJsonByUrl exClient (exOffline (1 / 2)) GET exUrl None) = [450, 850]"
    by (simp add: transport_eval exOffline_def)
  from retry_delays [of exClient "exPlatform unavailableTwiceThenOk (1 / 2) :: (unit, nat) platform"
         GET exUrl None 1 "exResponse 503 ''busy'' None"] d1
  have a: "delays (requestJsonByUrl exClient
                 (exPlatform unavailableTwiceThenOk (1 / 2) :: (unit, nat) platform)
                 GET exUrl None) ! 1 = 1000"
    by (simp add: exPlatform_def unavailableTwiceThenOk_def exResponse_def)
  from retry_delays [of exClient "exOffline (1 / 2)" GET exUrl None 0 _
         "FetchRejected ''fetch failed''"] d3
  have b: "delays (requestJsonByUrl exClient (exOffline (1 / 2)) GET exUrl None) ! 0 = 450"
    by (simp add: exOffline_def)
  from a b show ?thesis by (intro conjI)
qed

text \<open>
  C6 as stated fails on the code. Without a \<^verbatim>\<open>retry-after\<close> header the delays after two
  answers 503 are 500 and 1000 milliseconds whether the random numbers are 0 or 0.9: no
  jitter is added. After a failure of the network, with the random number one half, they
  are 450 and 850 milliseconds: the base is 200, not 250.
\<close>

theorem retry_delays_counterexample:
  "delays (requestJsonByUrl exClient (exPlatform unavailableTwiceThenOk 0 :: (unit, nat) platform)
             GET exUrl None) = [500, 1000]
   \<and> delays (requestJsonByUrl exClient
               (exPlatform unavailableTwiceThenOk (9 / 10) :: (unit, nat) platform)
               GET exUrl None) = [500, 1000]
   \<and> delays (requestJsonByUrl exClient (exOffline (1 / 2)) GET exUrl None) = [450, 850]"
  by (simp add: transport_eval unavailableTwiceThenOk_def exOffline_def)

text \<open>
  The number of the \<^verbatim>\<open>retry-after\<close> header goes to \<^verbatim>\<open>setTimeout\<close> as it is. The header
  counts seconds, the timer milliseconds: a service that asks for two seconds is asked
  again after two milliseconds.
\<close>

lemma retry_after_seconds_as_milliseconds:
  "requestJsonByUrl exClient exRateLimited GET exUrl None
     = \<lparr> outcome = Inr (Some 7), attempts = 2, delays = [2],
         sent = replicate 2 (buildRequest exClient GET exUrl None) \<rparr>"
  by (simp add: transport_eval exRateLimited_def numeral_2_eq_2)

section \<open>Endpoints: caller errors and the field cache\<close>

text \<open>
  C8. With a key that is missing or empty, \<^verbatim>\<open>getPerson\<close> fails with its caller error and
  the list of transport calls is the one it was given: no request was made. The same
  holds of \<^verbatim>\<open>getDirectReports\<close> with a missing or empty manager identifier, whatever the
  fuel of the page loop.
\<close>

theorem caller_errors_before_network:
  "(falsy key \<longrightarrow>
      getPerson c enc net key calls = (Inl (CallerError ''getPerson: idOrEmail is required''), calls))
   \<and> (falsy managerId \<longrightarrow>
      getDirectReports fuel c net' managerId pageSz calls'
        = Some (Inl (CallerError ''getDirectReports: managerId is required''), calls'))"
  by (auto simp: falsy_def getPerson_def getDirectReports_def split: option.splits)

theorem caller_errors_before_network_witness:
  "getPerson exClient (\<lambda>s. s) (exNetwork (\<lambda>k. exResponse 200 [] None)) (Some []) ([] :: (unit, person envelope) calls)
     = (Inl (CallerError ''getPerson: idOrEmail is required''), [])
   \<and> getDirectReports 0 exClient (exNetwork (\<lambda>k. exResponse 200 [] None)) None (Some 10) []
     = Some (Inl (CallerError ''getDirectReports: managerId is required''), [])"
  using caller_errors_before_network
          [of "Some []" exClient "\<lambda>s. s" "exNetwork (\<lambda>k. exResponse 200 [] None)"
              "[] :: (unit, person envelope) calls" None 0
              "exNetwork (\<lambda>k. exResponse 200 [] None)" "Some 10" "[]"]
  by (simp add: falsy_def)

subsection \<open>The field cache\<close>

text \<open>A first attempt that is answered with an ok status and a JSON body is the only
  attempt of its transport call.\<close>

lemma requestJsonByUrl_first_ok:
  assumes "fetch_impl pf 1 (buildRequest c m u b) = Resolves res"
    and "ok res" and "status res \<noteq> 204" and "bodyJson res = Some j"
  shows "requestJsonByUrl c pf m u b
           = \<lparr> outcome = Inr (Some j), attempts = 1, delays = [], sent = [buildRequest c m u b] \<rparr>"
proof -
  from assms have "tryAttempt pf (buildRequest c m u b) 1 = Returned (Some j)"
    by (simp add: tryAttempt_def)
  then show ?thesis
    unfolding requestJsonByUrl_def
    by (subst requestLoop.simps) (simp add: maxAttempts_def)
qed

text \<open>A call that is not answered from the cache makes the transport call, and the
  answer of that call decides the result and the cache.\<close>

lemma getFields_fetch:
  assumes "forceRefresh \<or> \<not> cacheFresh c now"
  shows "getFields c net forceRefresh now calls =
      (case outcome (fieldsRequest c net calls) of
         Inl e \<Rightarrow> (Inl e, c, calls @ [fieldsRequest c net calls])
       | Inr resp \<Rightarrow>
           (Inr (fieldsOfAnswer resp),
            c\<lparr>fieldsCache := Some \<lparr> fetchedAt = now, cachedItems = fieldsOfAnswer resp \<rparr>\<rparr>,
            calls @ [fieldsRequest c net calls]))"
  using assms unfolding getFields_def Let_def by auto

lemma getFields_hit:
  assumes "cacheFresh c now" and "fieldsCache c = Some fc"
  shows "getFields c net False now calls = (Inr (cachedItems fc), c, calls)"
  using assms by (simp add: getFields_def)

text \<open>
  C7, as the code has it. Let the call \<^verbatim>\<open>getFields(forceRefresh)\<close> be forced, or find no
  fresh snapshot. Then it makes exactly one transport call, the request for the fields,
  and the answer of that call decides everything: an error is returned and leaves the
  cache as it is; a success returns the schema of the answer and replaces the cache by
  that schema with the time of the call. If such a call without \<^verbatim>\<open>forceRefresh\<close>
  succeeds at time \<open>now1\<close>, a second call at a time \<open>now2\<close> with \<open>now2 - now1\<close> below the
  TTL makes no transport call and returns the same schema. One transport call makes
  between one and three network fetches, and exactly one when its first attempt is
  answered with an ok status and a JSON body. A client built without a TTL has the TTL of
  ten minutes and an empty cache.
\<close>

theorem getFields_cache:
  "(forceRefresh \<or> \<not> cacheFresh c now \<longrightarrow>
      getFields c net forceRefresh now calls =
        (case outcome (fieldsRequest c net calls) of
           Inl e \<Rightarrow> (Inl e, c, calls @ [fieldsRequest c net calls])
         | Inr resp \<Rightarrow>
             (Inr (fieldsOfAnswer resp),
              c\<lparr>fieldsCache := Some \<lparr> fetchedAt = now, cachedItems = fieldsOfAnswer resp \<rparr>\<rparr>,
              calls @ [fieldsRequest c net calls])))
   \<and> (\<not> cacheFresh c now1 \<and> outcome (fieldsRequest c net calls) = Inr answer
        \<and> now2 - now1 < fieldsTtlMs c
      \<longrightarrow> getFields c net False now1 calls
            = (Inr (fieldsOfAnswer answer),
               c\<lparr>fieldsCache := Some \<lparr> fetchedAt = now1, cachedItems = fieldsOfAnswer answer \<rparr>\<rparr>,
               calls @ [fieldsRequest c net calls])
          \<and> getFields
               (c\<lparr>fieldsCache := Some \<lparr> fetchedAt = now1, cachedItems = fieldsOfAnswer answer \<rparr>\<rparr>)
               net False now2 (calls @ [fieldsRequest c net calls])
            = (Inr (fieldsOfAnswer answer),
               c\<lparr>fieldsCache := Some \<lparr> fetchedAt = now1, cachedItems = fieldsOfAnswer answer \<rparr>\<rparr>,
               calls @ [fieldsRequest c net calls]))
   \<and> 1 \<le> attempts (fieldsRequest c net calls) \<and> attempts (fieldsRequest c net calls) \<le> 3
   \<and> length (sent (fieldsRequest c net calls)) = attempts (fieldsRequest c net calls)
   \<and> (fetch_impl (net (length calls)) 1 (buildRequest c GET (baseUrl c @ ''/fields/person'') None)
          = Resolves res
        \<and> ok res \<and> status res \<noteq> 204 \<and> bodyJson res = Some answer'
      \<longrightarrow> fieldsRequest c net calls
            = \<lparr> outcome = Inr (Some answer'), attempts = 1, delays = [],
                sent = [buildRequest c GET (baseUrl c @ ''/fields/person'') None] \<rparr>)
   \<and> (newSiftClient opts = Inr c0 \<and> opt_fieldsTtlMs opts = None
      \<longrightarrow> fieldsTtlMs c0 = 10 * 60 * 1000 \<and> fieldsCache c0 = None)"
proof (intro conjI impI)
  assume "forceRefresh \<or> \<not> cacheFresh c now"
  then show "getFields c net forceRefresh now calls =
        (case outcome (fieldsRequest c net calls) of
           Inl e \<Rightarrow> (Inl e, c, calls @ [fieldsRequest c net calls])
         | Inr resp \<Rightarrow>
             (Inr (fieldsOfAnswer resp),
              c\<lparr>fieldsCache := Some \<lparr> fetchedAt = now, cachedItems = fieldsOfAnswer resp \<rparr>\<rparr>,
              calls @ [fieldsRequest c net calls]))"
    by (rule getFields_fetch)
next
  let ?c1 = "c\<lparr>fieldsCache := Some \<lparr> fetchedAt = now1, cachedItems = fieldsOfAnswer answer \<rparr>\<rparr>"
  assume a: "\<not> cacheFresh c now1 \<and> outcome (fieldsRequest c net calls) = Inr answer
             \<and> now2 - now1 < fieldsTtlMs c"
  with getFields_fetch [of False c now1 net calls]
  show "getFields c net False now1 calls
          = (Inr (fieldsOfAnswer answer), ?c1, calls @ [fieldsRequest c net calls])"
    by simp
  from a have "cacheFresh ?c1 now2"
    by (simp add: cacheFresh_def)
  from getFields_hit [OF this, of "\<lparr> fetchedAt = now1, cachedItems = fieldsOfAnswer answer \<rparr>"]
  show "getFields ?c1 net False now2 (calls @ [fieldsRequest c net calls])
          = (Inr (fieldsOfAnswer answer), ?c1, calls @ [fieldsRequest c net calls])"
    by simp
next
  from requestJsonByUrl_attempts [of c "net (length calls)" GET "baseUrl c @ ''/fields/person''" None]
  show "1 \<le> attempts (fieldsRequest c net calls)" and "attempts (fieldsRequest c net calls) \<le> 3"
    by (simp_all add: fieldsRequest_def requestJson_def)
next
  show "length (sent (fieldsRequest c net calls)) = attempts (fieldsRequest c net calls)"
    by (simp add: fieldsRequest_def requestJson_def requestJsonByUrl_sent)
next
  assume "fetch_impl (net (length calls)) 1 (buildRequest c GET (baseUrl c @ ''/fields/person'') None)
            = Resolves res
          \<and> ok res \<and> status res \<noteq> 204 \<and> bodyJson res = Some answer'"
  then show "fieldsRequest c net calls
            = \<lparr> outcome = Inr (Some answer'), attempts = 1, delays = [],
                sent = [buildRequest c GET (baseUrl c @ ''/fields/person'') None] \<rparr>"
    by (simp add: fieldsRequest_def requestJson_def requestJsonByUrl_first_ok)
next
  assume "newSiftClient opts = Inr c0 \<and> opt_fieldsTtlMs opts = None"
  then have made: "newSiftClient opts = Inr c0" and none: "opt_fieldsTtlMs opts = None"
    by simp_all
  from made have "fieldsTtlMs c0 = (case opt_fieldsTtlMs opts of None \<Rightarrow> 10 * 60 * 1000 | Some t \<Rightarrow> t)"
    and "fieldsCache c0 = None"
    by (auto simp: newSiftClient_def split: if_splits)
  with none show "fieldsTtlMs c0 = 10 * 60 * 1000" and "fieldsCache c0 = None"
    by simp_all
qed

text \<open>
  The unit test of the cache: the example client asks at time 0 and gets the first
  schema with one fetch, answers from the cache one millisecond before the ten minutes
  are over, and on a forced call at that time fetches and caches the second schema.
\<close>

theorem getFields_cache_witness:
  "getFields exClient exFieldsNetwork False 0 []
     = (Inr exFields, exCached 0 exFields, [fieldsRequest exClient exFieldsNetwork []])
   \<and> getFields (exCached 0 exFields) exFieldsNetwork False 599999
        [fieldsRequest exClient exFieldsNetwork []]
     = (Inr exFields, exCached 0 exFields, [fieldsRequest exClient exFieldsNetwork []])
   \<and> sent (fieldsRequest exClient exFieldsNetwork [])
     = [buildRequest exClient GET ''https://api.justsift.com/v1/fields/person'' None]
   \<and> getFields (exCached 0 exFields) exFieldsNetwork True 599999
        [fieldsRequest exClient exFieldsNetwork []]
     = (Inr exFields2, exCached 599999 exFields2,
        [fieldsRequest exClient exFieldsNetwork [],
         fieldsRequest (exCached 0 exFields) exFieldsNetwork
           [fieldsRequest exClient exFieldsNetwork []]])
   \<and> newSiftClient exOptions = Inr exClient"
proof -
  let ?t = "fieldsRequest exClient exFieldsNetwork []"
  have made: "newSiftClient exOptions = Inr exClient"
    by (simp add: newSiftClient_def exOptions_def exClient_def stripTrailingSlash_def)
  have first_fetch: "fetch_impl (exFieldsNetwork (length ([] :: (unit, fieldMeta list envelope) calls))) 1
          (buildRequest exClient GET (baseUrl exClient @ ''/fields/person'') None)
        = Resolves (exResponse 200 [] (Some \<lparr> data = Some exFields \<rparr>))"
    by (simp add: exFieldsNetwork_def exPlatform_def)
  have okay: "ok (exResponse 200 [] (Some \<lparr> data = Some exFields \<rparr>))"
    "status (exResponse 200 [] (Some \<lparr> data = Some exFields \<rparr>)) \<noteq> 204"
    "bodyJson (exResponse 200 [] (Some \<lparr> data = Some exFields \<rparr>)) = Some \<lparr> data = Some exFields \<rparr>"
    by (simp_all add: ok_def exResponse_def)
  from getFields_cache [of False exClient 0 exFieldsNetwork "[]" 0 _ 599999
         "exResponse 200 [] (Some \<lparr> data = Some exFields \<rparr>)" "\<lparr> data = Some exFields \<rparr>"]
       first_fetch okay
  have t: "?t = \<lparr> outcome = Inr (Some \<lparr> data = Some exFields \<rparr>), attempts = 1, delays = [],
                   sent = [buildRequest exClient GET (baseUrl exClient @ ''/fields/person'') None] \<rparr>"
    by blast
  then have answer: "outcome ?t = Inr (Some \<lparr> data = Some exFields \<rparr>)"
    by simp
  have stale: "\<not> cacheFresh exClient 0"
    by (simp add: cacheFresh_def exClient_def)
  have within: "599999 - 0 < fieldsTtlMs exClient"
    by (simp add: exClient_def)
  have items: "fieldsOfAnswer (Some \<lparr> data = Some exFields \<rparr>) = exFields"
    by (simp add: fieldsOfAnswer_def)
  from getFields_cache [of False exClient 0 exFieldsNetwork "[]" 0 "Some \<lparr> data = Some exFields \<rparr>"
         599999] stale answer within
  have two: "getFields exClient exFieldsNetwork False 0 [] = (Inr exFields, exCached 0 exFields, [?t])
     \<and> getFields (exCached 0 exFields) exFieldsNetwork False 599999 [?t]
         = (Inr exFields, exCached 0 exFields, [?t])"
    by (simp add: items exCached_def)
  have second_answer: "outcome (fieldsRequest (exCached 0 exFields) exFieldsNetwork [?t])
                         = Inr (Some \<lparr> data = Some exFields2 \<rparr>)"
    by (simp add: fieldsRequest_def exFieldsNetwork_def transport_eval)
  from getFields_cache [of True "exCached 0 exFields" 599999 exFieldsNetwork "[?t]"]
       second_answer
  have forced: "getFields (exCached 0 exFields) exFieldsNetwork True 599999 [?t]
     = (Inr exFields2, exCached 599999 exFields2,
        [?t, fieldsRequest (exCached 0 exFields) exFieldsNetwork [?t]])"
    by (simp add: fieldsOfAnswer_def exCached_def)
  from t have sent1: "sent ?t
     = [buildRequest exClient GET ''https://api.justsift.com/v1/fields/person'' None]"
    by (simp add: exClient_def)
  from two sent1 forced made show ?thesis
    by (intro conjI) simp_all
qed

text \<open>
  C7 as stated fails on the code in three ways. When the service answers the request for
  the fields with 503, 503 and then the schema, two calls within the TTL make three
  network fetches, not one: the single transport call retries. When a fresh snapshot is
  there before the first of the two calls, they make no fetch at all. And a forced call
  whose request fails (here with 404 at every attempt) returns the error and leaves the
  cached snapshot as it was.
\<close>

theorem getFields_cache_counterexample:
  "getFields exClient exSlowFieldsNetwork False 0 []
     = (Inr exFields, exCached 0 exFields, [fieldsRequest exClient exSlowFieldsNetwork []])
   \<and> getFields (exCached 0 exFields) exSlowFieldsNetwork False 1000
        [fieldsRequest exClient exSlowFieldsNetwork []]
     = (Inr exFields, exCached 0 exFields, [fieldsRequest exClient exSlowFieldsNetwork []])
   \<and> length (sent (fieldsRequest exClient exSlowFieldsNetwork [])) = 3
   \<and> getFields (exCached 0 exFields) exSlowFieldsNetwork False 1000 []
     = (Inr exFields, exCached 0 exFields, [])
   \<and> fst (getFields (exCached 0 exFields) exNoFieldsNetwork True 1000 [])
     = Inl (HttpFailure GET ''https://api.justsift.com/v1/fields/person'' 404 [] ''gone'')
   \<and> fst (snd (getFields (exCached 0 exFields) exNoFieldsNetwork True 1000 []))
     = exCached 0 exFields"
proof -
  let ?t = "fieldsRequest exClient exSlowFieldsNetwork []"
  have t: "?t = \<lparr> outcome = Inr (Some \<lparr> data = Some exFields \<rparr>), attempts = 3,
                   delays = [500, 1000],
                   sent = replicate 3
                     (buildRequest exClient GET ''https://api.justsift.com/v1/fields/person'' None) \<rparr>"
    by (simp add: fieldsRequest_def exSlowFieldsNetwork_def transport_eval exClient_def
          numeral_3_eq_3)
  have first: "getFields exClient exSlowFieldsNetwork False 0 []
                 = (Inr exFields, exCached 0 exFields, [?t])"
    using t getFields_fetch [of False exClient 0 exSlowFieldsNetwork "[]"]
    by (simp add: cacheFresh_def fieldsOfAnswer_def exCached_def) (simp add: exClient_def)
  have second: "getFields (exCached 0 exFields) exSlowFieldsNetwork False 1000 [?t]
                 = (Inr exFields, exCached 0 exFields, [?t])"
    using getFields_hit [of "exCached 0 exFields" 1000
            "\<lparr> fetchedAt = 0, cachedItems = exFields \<rparr>" exSlowFieldsNetwork "[?t]"]
    by (simp add: cacheFresh_def exCached_def exClient_def)
  from t have three: "length (sent ?t) = 3" by simp
  have warm: "getFields (exCached 0 exFields) exSlowFieldsNetwork False 1000 []
                 = (Inr exFields, exCached 0 exFields, [])"
    using getFields_hit [of "exCached 0 exFields" 1000
            "\<lparr> fetchedAt = 0, cachedItems = exFields \<rparr>" exSlowFieldsNetwork "[]"]
    by (simp add: cacheFresh_def exCached_def exClient_def)
  have gone: "outcome (fieldsRequest (exCached 0 exFields) exNoFieldsNetwork [])
                = Inl (HttpFailure GET ''https://api.justsift.com/v1/fields/person'' 404 [] ''gone'')"
    by (simp add: fieldsRequest_def exNoFieldsNetwork_def transport_eval exCached_def
          exClient_def)
  from gone getFields_fetch [of True "exCached 0 exFields" 1000 exNoFieldsNetwork "[]"]
  have failed: "getFields (exCached 0 exFields) exNoFieldsNetwork True 1000 []
                  = (Inl (HttpFailure GET ''https://api.justsift.com/v1/fields/person'' 404 [] ''gone''),
                     exCached 0 exFields,
                     [fieldsRequest (exCached 0 exFields) exNoFieldsNetwork []])"
    by simp
  from first second three warm failed show ?thesis
    by (intro conjI) simp_all
qed

section \<open>The reporting chain\<close>

subsection \<open>\<^verbatim>\<open>dedupe\<close> keeps first occurrences, in order\<close>

lemma dedupe_fold_set:
  "set (foldl (\<lambda>s x. if x \<in> set s then s else s @ [x]) acc xs) = set acc \<union> set xs"
  by (induction xs arbitrary: acc) auto

lemma dedupe_fold_distinct:
  "distinct acc \<Longrightarrow> distinct (foldl (\<lambda>s x. if x \<in> set s then s else s @ [x]) acc xs)"
  by (induction xs arbitrary: acc) auto


lemma dedupe_fold_Cons:
  "foldl (\<lambda>s x. if x \<in> set s then s else s @ [x]) (a # acc) xs
     = a # foldl (\<lambda>s x. if x \<in> set s then s else s @ [x]) acc (filter (\<lambda>x. x \<noteq> a) xs)"
  by (induction xs arbitrary: acc) auto

lemma set_dedupe: "set (dedupe xs) = set xs"
  by (simp add: dedupe_def dedupe_fold_set)

lemma distinct_dedupe: "distinct (dedupe xs)"
  by (simp add: dedupe_def dedupe_fold_distinct)


lemma dedupe_Cons: "dedupe (x # xs) = x # dedupe (filter (\<lambda>y. y \<noteq> x) xs)"
  using dedupe_fold_Cons [of x "[]" xs] by (simp add: dedupe_def)

subsection \<open>\<^verbatim>\<open>Promise.all\<close> delivers in the order of its input\<close>












section \<open>Direct reports: pagination and deduplication\<close>

declare followPages.simps [simp del]

subsection \<open>\<^verbatim>\<open>dedupeById\<close>\<close>

lemma dedupeByIdLoop_out:
  "dedupeByIdLoop arr seen out = out @ dedupeByIdLoop arr seen []"
proof (induction arr arbitrary: seen out)
  case Nil
  show ?case by simp
next
  case (Cons x arr)
  show ?case
  proof (cases "pid x = [] \<or> pid x \<in> seen")
    case True
    with Cons [of seen out] show ?thesis by simp
  next
    case False
    with Cons [of "insert (pid x) seen" "out @ [x]"] Cons [of "insert (pid x) seen" "[x]"]
    show ?thesis by simp
  qed
qed

text \<open>The loop as a recursion on the array: an entity is skipped when its identifier is
  empty or was seen before, and kept otherwise.\<close>

lemma dedupeByIdLoop_Cons:
  "dedupeByIdLoop (x # arr) seen [] =
     (if pid x = [] \<or> pid x \<in> seen then dedupeByIdLoop arr seen []
      else x # dedupeByIdLoop arr (insert (pid x) seen) [])"
  using dedupeByIdLoop_out [of arr "insert (pid x) seen" "[x]"] by simp

lemma dedupeByIdLoop_ids:
  "pid ` set (dedupeByIdLoop arr seen []) = pid ` set arr - {[]} - seen"
proof (induction arr arbitrary: seen)
  case Nil
  show ?case by simp
next
  case (Cons x arr)
  show ?case
    unfolding dedupeByIdLoop_Cons using Cons [of seen] Cons [of "insert (pid x) seen"]
    by auto
qed

lemma dedupeByIdLoop_distinct:
  "distinct (map pid (dedupeByIdLoop arr seen []))"
proof (induction arr arbitrary: seen)
  case Nil
  show ?case by simp
next
  case (Cons x arr)
  show ?case
    unfolding dedupeByIdLoop_Cons
    using Cons [of seen] Cons [of "insert (pid x) seen"]
      dedupeByIdLoop_ids [of arr "insert (pid x) seen"]
    by auto
qed

lemma dedupeByIdLoop_subseq:
  "subseq (dedupeByIdLoop arr seen []) arr"
proof (induction arr arbitrary: seen)
  case Nil
  show ?case by simp
next
  case (Cons x arr)
  show ?case
    unfolding dedupeByIdLoop_Cons
    using Cons [of seen] Cons [of "insert (pid x) seen"]
    by auto
qed

lemma dedupeByIdLoop_first:
  "y \<in> set (dedupeByIdLoop arr seen []) \<Longrightarrow> find (\<lambda>z. pid z = pid y) arr = Some y"
proof (induction arr arbitrary: seen)
  case Nil
  then show ?case by simp
next
  case (Cons x arr)
  show ?case
  proof (cases "pid x = [] \<or> pid x \<in> seen")
    case True
    with Cons.prems have y: "y \<in> set (dedupeByIdLoop arr seen [])"
      by (simp add: dedupeByIdLoop_Cons del: dedupeByIdLoop.simps)
    then have "pid y \<in> pid ` set arr - {[]} - seen"
      using dedupeByIdLoop_ids [of arr seen] by blast
    with True have "pid x \<noteq> pid y" by auto
    with Cons.IH [OF y] show ?thesis by simp
  next
    case False
    with Cons.prems have "y = x \<or> y \<in> set (dedupeByIdLoop arr (insert (pid x) seen) [])"
      by (simp add: dedupeByIdLoop_Cons del: dedupeByIdLoop.simps)
    then show ?thesis
    proof
      assume "y = x"
      then show ?thesis by simp
    next
      assume y: "y \<in> set (dedupeByIdLoop arr (insert (pid x) seen) [])"
      then have "pid y \<in> pid ` set arr - {[]} - insert (pid x) seen"
        using dedupeByIdLoop_ids [of arr "insert (pid x) seen"] by blast
      then have "pid x \<noteq> pid y" by auto
      with Cons.IH [OF y] show ?thesis by simp
    qed
  qed
qed

lemma dedupeById_spec:
  "distinct (map pid (dedupeById arr))
   \<and> pid ` set (dedupeById arr) = pid ` set arr - {[]}
   \<and> (\<forall>y \<in> set (dedupeById arr). find (\<lambda>z. pid z = pid y) arr = Some y)
   \<and> subseq (dedupeById arr) arr"
  unfolding dedupeById_def
  using dedupeByIdLoop_distinct [of arr "{}"] dedupeByIdLoop_ids [of arr "{}"]
    dedupeByIdLoop_subseq [of arr "{}"] dedupeByIdLoop_first [of _ arr "{}"]
  by auto

subsection \<open>The page loop\<close>

lemma followPages_done:
  "nextLink resp = None \<Longrightarrow> followPages fuel c net resp out calls = Some (Inr out, calls)"
  by (subst followPages.simps) simp

lemma followPages_empty:
  "nextLink resp = Some u \<Longrightarrow> followPages 0 c net resp out calls = None"
  by (subst followPages.simps) simp

lemma followPages_step:
  "nextLink resp = Some u \<Longrightarrow>
   followPages (Suc n) c net resp out calls =
     (case outcome (followSearchNext c (net (length calls)) u) of
        Inl e \<Rightarrow> Some (Inl e, calls @ [followSearchNext c (net (length calls)) u])
      | Inr None \<Rightarrow> Some (Inl (TypeError ''resp.data''),
                         calls @ [followSearchNext c (net (length calls)) u])
      | Inr (Some r) \<Rightarrow> followPages n c net r (out @ pageItems r)
                          (calls @ [followSearchNext c (net (length calls)) u]))"
  by (subst followPages.simps) (simp add: Let_def)

text \<open>Whenever the loop ends with a list, it has followed every next link.\<close>

lemma followPages_sound:
  "followPages fuel c net resp out calls = Some (Inr out', calls') \<Longrightarrow>
   \<exists>pages entries. calls' = calls @ entries
     \<and> followsNextLinks c net (length calls) resp pages entries
     \<and> out' = out @ concat (map pageItems pages)"
proof (induction fuel arbitrary: resp out calls)
  case 0
  show ?case
  proof (cases "nextLink resp")
    case None
    with 0 have "out' = out" and "calls' = calls"
      by (simp_all add: followPages_done)
    with None show ?thesis
      by (intro exI [of _ "[]"]) simp
  next
    case (Some u)
    with 0 show ?thesis by (simp add: followPages_empty)
  qed
next
  case (Suc n)
  show ?case
  proof (cases "nextLink resp")
    case None
    with Suc.prems have "out' = out" and "calls' = calls"
      by (simp_all add: followPages_done)
    with None show ?thesis
      by (intro exI [of _ "[]"]) simp
  next
    case (Some u)
    let ?t = "followSearchNext c (net (length calls)) u"
    from Suc.prems Some obtain r where r: "outcome ?t = Inr (Some r)"
      and run: "followPages n c net r (out @ pageItems r) (calls @ [?t]) = Some (Inr out', calls')"
      by (auto simp: followPages_step split: sum.splits option.splits)
    from Suc.IH [OF run] obtain pages entries where
      c': "calls' = (calls @ [?t]) @ entries"
      and ch: "followsNextLinks c net (length (calls @ [?t])) r pages entries"
      and o': "out' = (out @ pageItems r) @ concat (map pageItems pages)"
      by blast
    from Some r ch have "followsNextLinks c net (length calls) resp (r # pages) (?t # entries)"
      by simp
    with c' o' show ?thesis
      by (intro exI [of _ "r # pages"] exI [of _ "?t # entries"]) simp
  qed
qed

text \<open>And when the service chains finitely many pages, the loop ends with their items,
  given as much fuel as there are pages to follow.\<close>

lemma followPages_complete:
  "followsNextLinks c net (length calls) resp pages entries \<Longrightarrow> length pages \<le> fuel \<Longrightarrow>
   followPages fuel c net resp out calls
     = Some (Inr (out @ concat (map pageItems pages)), calls @ entries)"
proof (induction pages arbitrary: fuel resp out calls entries)
  case Nil
  then have "entries = []" and "nextLink resp = None"
    by (cases entries; simp)+
  then show ?case by (simp add: followPages_done)
next
  case (Cons r pages)
  from Cons.prems(1) obtain t rest where entries: "entries = t # rest"
    by (cases entries) auto
  with Cons.prems(1) obtain u where u: "nextLink resp = Some u"
    and t: "t = followSearchNext c (net (length calls)) u"
    and r: "outcome t = Inr (Some r)"
    and ch: "followsNextLinks c net (Suc (length calls)) r pages rest"
    by (auto split: option.splits)
  from Cons.prems(2) obtain n where fuel: "fuel = Suc n" and n: "length pages \<le> n"
    by (cases fuel) auto
  from ch have "followsNextLinks c net (length (calls @ [t])) r pages rest" by simp
  from Cons.IH [OF this n, of "out @ pageItems r"]
  have "followPages n c net r (out @ pageItems r) (calls @ [t])
          = Some (Inr ((out @ pageItems r) @ concat (map pageItems pages)), (calls @ [t]) @ rest)" .
  with u t r fuel entries show ?case
    by (simp add: followPages_step)
qed

subsection \<open>\<^verbatim>\<open>getDirectReports\<close>\<close>

lemma getDirectReports_unfold:
  "mid \<noteq> [] \<Longrightarrow>
   getDirectReports fuel c net (Some mid) pageSz calls =
     (case outcome (searchPeoplePost c (net (length calls))
                      (directReportsBody mid (clampPageSize pageSz))) of
        Inl e \<Rightarrow> Some (Inl e, calls @ [searchPeoplePost c (net (length calls))
                                         (directReportsBody mid (clampPageSize pageSz))])
      | Inr None \<Rightarrow> Some (Inl (TypeError ''resp.data''),
                         calls @ [searchPeoplePost c (net (length calls))
                                    (directReportsBody mid (clampPageSize pageSz))])
      | Inr (Some resp) \<Rightarrow>
          (case followPages fuel c net resp (pageItems resp)
                  (calls @ [searchPeoplePost c (net (length calls))
                              (directReportsBody mid (clampPageSize pageSz))]) of
             None \<Rightarrow> None
           | Some (Inl e, calls') \<Rightarrow> Some (Inl e, calls')
           | Some (Inr out, calls') \<Rightarrow> Some (Inr (dedupeById out), calls')))"
  by (simp add: getDirectReports_def Let_def)

lemma getDirectReports_complete:
  assumes "mid \<noteq> []"
    and "outcome (searchPeoplePost c (net (length calls))
                    (directReportsBody mid (clampPageSize pageSz))) = Inr (Some first)"
    and "followsNextLinks c net (Suc (length calls)) first pages entries"
    and "length pages \<le> fuel"
  shows "getDirectReports fuel c net (Some mid) pageSz calls
            = Some (Inr (dedupeById (concat (map pageItems (first # pages)))),
                    calls @ searchPeoplePost c (net (length calls))
                              (directReportsBody mid (clampPageSize pageSz)) # entries)"
proof -
  let ?post = "searchPeoplePost c (net (length calls)) (directReportsBody mid (clampPageSize pageSz))"
  from assms(3) have "followsNextLinks c net (length (calls @ [?post])) first pages entries"
    by simp
  from followPages_complete [OF this assms(4), of "pageItems first"]
  have "followPages fuel c net first (pageItems first) (calls @ [?post])
          = Some (Inr (pageItems first @ concat (map pageItems pages)), (calls @ [?post]) @ entries)" .
  with assms(1,2) show ?thesis
    by (simp add: getDirectReports_unfold)
qed

text \<open>
  C3, as the code has it. Whenever \<^verbatim>\<open>getDirectReports(managerId, pageSize)\<close> returns a
  list, its transport calls were: first the POST search with the filter
  \<^verbatim>\<open>teamLeaderId eq managerId\<close>, page 1 and the page size clamped to 1..100, answered
  with a first page; then, page after page, the GET of the next link of the page before,
  until a page without a (non-empty) next link. The list is \<^verbatim>\<open>dedupeById\<close> of the items
  of these pages in the order of their arrival. Conversely, when the service answers
  the POST with a page and chains finitely many pages, the call returns that list, given
  fuel for as many rounds as there are pages to follow. Every transport call hands the
  same request to fetch between one and three times. \<^verbatim>\<open>dedupeById\<close> returns a
  subsequence of its input without two equal identifiers, in which every entity is the
  first of the input with its identifier; its identifiers are those of the input other
  than the empty one: an entity with an empty identifier is dropped.
\<close>

theorem getDirectReports_pages:
  "(getDirectReports fuel c net (Some mid) pageSz calls = Some (Inr out, calls')
      \<longrightarrow> (\<exists>first pages entries.
             calls' = calls @ searchPeoplePost c (net (length calls))
                                (directReportsBody mid (clampPageSize pageSz)) # entries
           \<and> outcome (searchPeoplePost c (net (length calls))
                         (directReportsBody mid (clampPageSize pageSz))) = Inr (Some first)
           \<and> followsNextLinks c net (Suc (length calls)) first pages entries
           \<and> out = dedupeById (concat (map pageItems (first # pages)))))
   \<and> (mid \<noteq> []
        \<and> outcome (searchPeoplePost c (net (length calls))
                      (directReportsBody mid (clampPageSize pageSz))) = Inr (Some first)
        \<and> followsNextLinks c net (Suc (length calls)) first pages entries
        \<and> length pages \<le> fuel
      \<longrightarrow> getDirectReports fuel c net (Some mid) pageSz calls
            = Some (Inr (dedupeById (concat (map pageItems (first # pages)))),
                    calls @ searchPeoplePost c (net (length calls))
                              (directReportsBody mid (clampPageSize pageSz)) # entries))
   \<and> sent (searchPeoplePost c pf body)
       = replicate (attempts (searchPeoplePost c pf body))
           (buildRequest c POST (baseUrl c @ ''/search/people'') (Some body))
   \<and> 1 \<le> attempts (searchPeoplePost c pf body) \<and> attempts (searchPeoplePost c pf body) \<le> 3
   \<and> sent (followSearchNext c pf u)
       = replicate (attempts (followSearchNext c pf u)) (buildRequest c GET u None)
   \<and> 1 \<le> attempts (followSearchNext c pf u) \<and> attempts (followSearchNext c pf u) \<le> 3
   \<and> directReportsBody mid (clampPageSize pageSz)
       = \<lparr> body_page = 1, body_pageSize = min (max 1 (case pageSz of None \<Rightarrow> 100 | Some n \<Rightarrow> n)) 100,
           body_filter = \<lparr> cond_field = ''teamLeaderId'', cond_comparison = Eq,
                           cond_value = mid \<rparr> \<rparr>
   \<and> distinct (map pid (dedupeById arr))
   \<and> pid ` set (dedupeById arr) = pid ` set arr - {[]}
   \<and> (\<forall>y \<in> set (dedupeById arr). find (\<lambda>z. pid z = pid y) arr = Some y)
   \<and> subseq (dedupeById arr) arr"
proof -
  let ?post = "searchPeoplePost c (net (length calls)) (directReportsBody mid (clampPageSize pageSz))"
  have sound: "\<exists>first pages entries.
             calls' = calls @ ?post # entries
           \<and> outcome ?post = Inr (Some first)
           \<and> followsNextLinks c net (Suc (length calls)) first pages entries
           \<and> out = dedupeById (concat (map pageItems (first # pages)))"
    if run: "getDirectReports fuel c net (Some mid) pageSz calls = Some (Inr out, calls')"
  proof -
    from run have mid: "mid \<noteq> []"
      by (auto simp: getDirectReports_def)
    from run obtain first all where first: "outcome ?post = Inr (Some first)"
      and pages: "followPages fuel c net first (pageItems first) (calls @ [?post])
                    = Some (Inr all, calls')"
      and out: "out = dedupeById all"
      unfolding getDirectReports_unfold [OF mid]
      by (auto split: sum.splits option.splits prod.splits)
    from followPages_sound [OF pages] obtain pages entries where
      "calls' = (calls @ [?post]) @ entries"
      and "followsNextLinks c net (length (calls @ [?post])) first pages entries"
      and "all = pageItems first @ concat (map pageItems pages)"
      by blast
    with first out show ?thesis
      by (intro exI [of _ first] exI [of _ pages] exI [of _ entries]) simp
  qed
  have complete: "getDirectReports fuel c net (Some mid) pageSz calls
            = Some (Inr (dedupeById (concat (map pageItems (first # pages)))),
                    calls @ ?post # entries)"
    if a: "mid \<noteq> [] \<and> outcome ?post = Inr (Some first)
           \<and> followsNextLinks c net (Suc (length calls)) first pages entries
           \<and> length pages \<le> fuel"
    using a by (intro getDirectReports_complete) simp_all
  have post: "sent (searchPeoplePost c pf body)
       = replicate (attempts (searchPeoplePost c pf body))
           (buildRequest c POST (baseUrl c @ ''/search/people'') (Some body))"
    by (simp add: searchPeoplePost_def requestJson_def requestJsonByUrl_sent)
  have post_n: "1 \<le> attempts (searchPeoplePost c pf body) \<and> attempts (searchPeoplePost c pf body) \<le> 3"
    using requestJsonByUrl_attempts [of c pf POST "baseUrl c @ ''/search/people''" "Some body"]
    by (simp add: searchPeoplePost_def requestJson_def)
  have get: "sent (followSearchNext c pf u)
       = replicate (attempts (followSearchNext c pf u)) (buildRequest c GET u None)"
    by (simp add: followSearchNext_def requestJsonByUrl_sent)
  have get_n: "1 \<le> attempts (followSearchNext c pf u) \<and> attempts (followSearchNext c pf u) \<le> 3"
    using requestJsonByUrl_attempts [of c pf GET u None]
    by (simp add: followSearchNext_def)
  have body: "directReportsBody mid (clampPageSize pageSz)
       = \<lparr> body_page = 1, body_pageSize = min (max 1 (case pageSz of None \<Rightarrow> 100 | Some n \<Rightarrow> n)) 100,
           body_filter = \<lparr> cond_field = ''teamLeaderId'', cond_comparison = Eq,
                           cond_value = mid \<rparr> \<rparr>"
    by (simp add: directReportsBody_def clampPageSize_def)
  from sound complete post post_n get get_n body dedupeById_spec [of arr]
  show ?thesis by blast
qed

text \<open>The unit test of pagination: two pages, the second repeats b; the call returns
  a, the first b, and c, after the POST and one GET.\<close>

lemma exSearch_calls:
  "outcome (searchPeoplePost exClient (exSearchNetwork 0) (directReportsBody ''mgr'' 2))
     = Inr (Some exPage1)"
  "outcome (followSearchNext exClient (exSearchNetwork (Suc 0))
              ''https://api.justsift.com/v1/search/people?page=2'') = Inr (Some exPage2)"
  "nextLink exPage1 = Some ''https://api.justsift.com/v1/search/people?page=2''"
  "nextLink exPage2 = None"
  by (simp_all add: searchPeoplePost_def followSearchNext_def exSearchNetwork_def transport_eval
        nextLink_def exPage1_def exPage2_def exNoLinks_def)

theorem getDirectReports_pages_witness:
  "getDirectReports 5 exClient exSearchNetwork (Some ''mgr'') (Some 2) []
     = Some (Inr [exPerson ''a'' ''mgr'' 0, exPerson ''b'' ''mgr'' 0, exPerson ''c'' ''mgr'' 0],
             [searchPeoplePost exClient (exSearchNetwork 0) (directReportsBody ''mgr'' 2),
              followSearchNext exClient (exSearchNetwork 1)
                ''https://api.justsift.com/v1/search/people?page=2''])"
proof -
  have size: "clampPageSize (Some 2) = 2"
    by (simp add: clampPageSize_def)
  have chain: "followsNextLinks exClient exSearchNetwork (Suc 0) exPage1 [exPage2]
                 [followSearchNext exClient (exSearchNetwork 1)
                    ''https://api.justsift.com/v1/search/people?page=2'']"
    by (simp add: exSearch_calls)
  have items: "dedupeById (pageItems exPage1 @ pageItems exPage2)
     = [exPerson ''a'' ''mgr'' 0, exPerson ''b'' ''mgr'' 0, exPerson ''c'' ''mgr'' 0]"
    by (simp add: dedupeById_def pageItems_def exPage1_def exPage2_def exPerson_def)
  from getDirectReports_pages [of 5 exClient exSearchNetwork "''mgr''" "Some 2" "[]" _ _ exPage1
         "[exPage2]" "[followSearchNext exClient (exSearchNetwork 1)
                    ''https://api.justsift.com/v1/search/people?page=2'']"]
       exSearch_calls(1) chain
  show ?thesis
    by (simp add: size items)
qed

text \<open>
  C3 as stated fails on the code in two ways. The service of the second example answers
  the POST with 503 and then with a first page whose first entity has the empty
  identifier. The POST search is issued twice, not once; and the entity with the empty
  identifier, the first the client meets, is not in the returned list.
\<close>

lemma exFlakySearch_calls:
  "searchPeoplePost exClient (exFlakySearchNetwork 0) (directReportsBody ''mgr'' 2)
     = \<lparr> outcome = Inr (Some exPage1Anonymous), attempts = 2, delays = [500],
         sent = replicate 2 (buildRequest exClient POST ''https://api.justsift.com/v1/search/people''
                               (Some (directReportsBody ''mgr'' 2))) \<rparr>"
  "outcome (followSearchNext exClient (exFlakySearchNetwork (Suc 0))
              ''https://api.justsift.com/v1/search/people?page=2'') = Inr (Some exPage2)"
  "nextLink exPage1Anonymous = Some ''https://api.justsift.com/v1/search/people?page=2''"
  by (simp_all add: searchPeoplePost_def followSearchNext_def exFlakySearchNetwork_def
        transport_eval nextLink_def exPage1Anonymous_def exPage1_def exPage2_def exNoLinks_def
        exClient_def numeral_2_eq_2)

theorem getDirectReports_pages_counterexample:
  "getDirectReports 5 exClient exFlakySearchNetwork (Some ''mgr'') (Some 2) []
     = Some (Inr [exPerson ''a'' ''mgr'' 0, exPerson ''b'' ''mgr'' 0, exPerson ''c'' ''mgr'' 0],
             [searchPeoplePost exClient (exFlakySearchNetwork 0) (directReportsBody ''mgr'' 2),
              followSearchNext exClient (exFlakySearchNetwork 1)
                ''https://api.justsift.com/v1/search/people?page=2''])
   \<and> sent (searchPeoplePost exClient (exFlakySearchNetwork 0) (directReportsBody ''mgr'' 2))
     = [buildRequest exClient POST ''https://api.justsift.com/v1/search/people''
          (Some (directReportsBody ''mgr'' 2)),
        buildRequest exClient POST ''https://api.justsift.com/v1/search/people''
          (Some (directReportsBody ''mgr'' 2))]
   \<and> outcome (searchPeoplePost exClient (exFlakySearchNetwork 0) (directReportsBody ''mgr'' 2))
     = Inr (Some exPage1Anonymous)
   \<and> pageItems exPage1Anonymous
     = [exPerson [] ''mgr'' 0, exPerson ''a'' ''mgr'' 0, exPerson ''b'' ''mgr'' 0]"
proof -
  have size: "clampPageSize (Some 2) = 2"
    by (simp add: clampPageSize_def)
  have first: "outcome (searchPeoplePost exClient (exFlakySearchNetwork (length
                 ([] :: (searchPostBody, searchResponse) calls)))
                 (directReportsBody ''mgr'' (clampPageSize (Some 2)))) = Inr (Some exPage1Anonymous)"
    by (simp add: size exFlakySearch_calls(1))
  have chain: "followsNextLinks exClient exFlakySearchNetwork
                 (Suc (length ([] :: (searchPostBody, searchResponse) calls))) exPage1Anonymous
                 [exPage2]
                 [followSearchNext exClient (exFlakySearchNetwork 1)
                    ''https://api.justsift.com/v1/search/people?page=2'']"
    by (simp add: exFlakySearch_calls exSearch_calls(4))
  have items: "dedupeById (pageItems exPage1Anonymous @ pageItems exPage2)
     = [exPerson ''a'' ''mgr'' 0, exPerson ''b'' ''mgr'' 0, exPerson ''c'' ''mgr'' 0]"
    by (simp add: dedupeById_def pageItems_def exPage1Anonymous_def exPage1_def exPage2_def
          exPerson_def)
  have run: "getDirectReports 5 exClient exFlakySearchNetwork (Some ''mgr'') (Some 2) []
     = Some (Inr [exPerson ''a'' ''mgr'' 0, exPerson ''b'' ''mgr'' 0, exPerson ''c'' ''mgr'' 0],
             [searchPeoplePost exClient (exFlakySearchNetwork 0) (directReportsBody ''mgr'' 2),
              followSearchNext exClient (exFlakySearchNetwork 1)
                ''https://api.justsift.com/v1/search/people?page=2''])"
    using getDirectReports_complete [OF _ first chain, of 5]
    by (simp add: size items)
  have anon: "pageItems exPage1Anonymous
     = [exPerson [] ''mgr'' 0, exPerson ''a'' ''mgr'' 0, exPerson ''b'' ''mgr'' 0]"
    by (simp add: pageItems_def exPage1Anonymous_def)
  from run anon show ?thesis
    by (simp add: exFlakySearch_calls(1) numeral_2_eq_2)
qed

section \<open>The subtree walk\<close>

lemmas walk_eval =
  getOrgSubtree_def subtreeWalk_def initialWalk_def seedNodes_def resolveManager_def
  effMaxDepth_def effMaxNodes_def clampPageSize_def mkResult_def mapHas_def mapSet_def
  walkLoop.simps Let_def exGetPerson_def exReports_def exLeafReports_def exRoot_def
  exPerson_def exSubtreeOpts_def

text \<open>The scenario of the specification with depth cap 2 and node cap 100.\<close>

lemma getOrgSubtree_scenario:
  "getOrgSubtree exGetPerson exReports ''root'' (exSubtreeOpts False 2 100)
     = Inr \<lparr> manager = Some exRoot,
             nodes = [exPerson ''A'' ''root'' 2, exPerson ''B'' ''root'' 0,
                      exPerson ''A1'' ''A'' 0, exPerson ''A2'' ''A'' 0],
             edges = [\<lparr> leaderId = Some ''root'', personId = ''A'' \<rparr>,
                      \<lparr> leaderId = Some ''root'', personId = ''B'' \<rparr>,
                      \<lparr> leaderId = Some ''A'', personId = ''A1'' \<rparr>,
                      \<lparr> leaderId = Some ''A'', personId = ''A2'' \<rparr>],
             stats = \<lparr> expanded = 2, enqueued = 4, apiCalls = 2, depthReached = 2,
                       truncated = False \<rparr> \<rparr>"
  by (simp add: walk_eval)

text \<open>The same organisation with node cap 3: the walk stops at A1.\<close>

lemma getOrgSubtree_scenario_capped:
  "getOrgSubtree exGetPerson exReports ''root'' (exSubtreeOpts False 2 3)
     = Inr \<lparr> manager = Some exRoot,
             nodes = [exPerson ''A'' ''root'' 2, exPerson ''B'' ''root'' 0,
                      exPerson ''A1'' ''A'' 0],
             edges = [\<lparr> leaderId = Some ''root'', personId = ''A'' \<rparr>,
                      \<lparr> leaderId = Some ''root'', personId = ''B'' \<rparr>,
                      \<lparr> leaderId = Some ''A'', personId = ''A1'' \<rparr>],
             stats = \<lparr> expanded = 2, enqueued = 3, apiCalls = 2, depthReached = 2,
                       truncated = True \<rparr> \<rparr>"
  by (simp add: walk_eval)

text \<open>
  C10. In every result of \<^verbatim>\<open>getOrgSubtree\<close>, from the \<^verbatim>\<open>return\<close> of the node cap and
  from the one at the end, \<^verbatim>\<open>stats.enqueued\<close> is the length of \<^verbatim>\<open>nodes\<close>.
\<close>

theorem enqueued_is_node_count:
  "getOrgSubtree gp gdr key opts = Inr r \<Longrightarrow> enqueued (stats r) = length (nodes r)"
  by (auto simp: getOrgSubtree_def mkResult_def split: sum.splits prod.splits)

text \<open>In the scenario the queue received two entries (the root and A), and
  \<^verbatim>\<open>enqueued\<close> is 4, the number of nodes.\<close>

theorem enqueued_is_node_count_witness:
  "(\<exists>r. getOrgSubtree exGetPerson exReports ''root'' (exSubtreeOpts False 2 100) = Inr r
        \<and> enqueued (stats r) = 4 \<and> length (nodes r) = 4)"
  using enqueued_is_node_count [OF getOrgSubtree_scenario] getOrgSubtree_scenario
  by simp

subsection \<open>One round of the loop\<close>

lemma walkLoop_done:
  "w_queue w = [] \<Longrightarrow> walkLoop gdr maxD maxN ps w = Inr (False, w)"
  by (subst walkLoop.simps) simp

lemma walkLoop_skip:
  "w_queue w = q # rest \<Longrightarrow> maxD \<le> int (q_depth q) \<Longrightarrow>
   walkLoop gdr maxD maxN ps w
     = walkLoop gdr maxD maxN ps
         (w\<lparr> w_queue := rest, w_depthReached := max (w_depthReached w) (q_depth q) \<rparr>)"
  by (subst walkLoop.simps) simp

lemma walkLoop_fail:
  "w_queue w = q # rest \<Longrightarrow> \<not> maxD \<le> int (q_depth q) \<Longrightarrow>
   gdr (w_apiCalls w) (q_id q) ps = Inl e \<Longrightarrow>
   walkLoop gdr maxD maxN ps w = Inl e"
  by (subst walkLoop.simps) simp

lemma walkLoop_expand:
  "w_queue w = q # rest \<Longrightarrow> \<not> maxD \<le> int (q_depth q) \<Longrightarrow>
   gdr (w_apiCalls w) (q_id q) ps = Inr drs \<Longrightarrow>
   forReports maxN (q_depth q) drs
     (w\<lparr> w_queue := rest, w_apiCalls := w_apiCalls w + 1, w_expanded := w_expanded w + 1,
         w_depthReached := max (w_depthReached w) (q_depth q + 1) \<rparr>) = (capped, w') \<Longrightarrow>
   walkLoop gdr maxD maxN ps w
     = (if capped then Inr (True, w') else walkLoop gdr maxD maxN ps w')"
  by (subst walkLoop.simps) simp

text \<open>An induction rule that follows the four ways through one round.\<close>

lemma walkLoop_cases_induct [case_names finished skipped failed expanded]:
  assumes "\<And>w. w_queue w = [] \<Longrightarrow> P w"
    and "\<And>w q rest. w_queue w = q # rest \<Longrightarrow> maxD \<le> int (q_depth q) \<Longrightarrow>
           P (w\<lparr> w_queue := rest, w_depthReached := max (w_depthReached w) (q_depth q) \<rparr>) \<Longrightarrow> P w"
    and "\<And>w q rest e. w_queue w = q # rest \<Longrightarrow> \<not> maxD \<le> int (q_depth q) \<Longrightarrow>
           gdr (w_apiCalls w) (q_id q) ps = Inl e \<Longrightarrow> P w"
    and "\<And>w q rest drs capped w'. w_queue w = q # rest \<Longrightarrow> \<not> maxD \<le> int (q_depth q) \<Longrightarrow>
           gdr (w_apiCalls w) (q_id q) ps = Inr drs \<Longrightarrow>
           forReports maxN (q_depth q) drs
             (w\<lparr> w_queue := rest, w_apiCalls := w_apiCalls w + 1, w_expanded := w_expanded w + 1,
                 w_depthReached := max (w_depthReached w) (q_depth q + 1) \<rparr>) = (capped, w') \<Longrightarrow>
           (\<not> capped \<Longrightarrow> P w') \<Longrightarrow> P w"
  shows "P w"
proof (induction w rule: measure_induct_rule
         [where f = "\<lambda>w. length (w_queue w) + nat (maxN - int (length (w_nodesMap w)))"])
  case (less w)
  show ?case
  proof (cases "w_queue w")
    case Nil
    then show ?thesis by (rule assms(1))
  next
    case (Cons q rest)
    show ?thesis
    proof (cases "maxD \<le> int (q_depth q)")
      case True
      have "P (w\<lparr> w_queue := rest, w_depthReached := max (w_depthReached w) (q_depth q) \<rparr>)"
        by (rule less.IH) (simp add: Cons)
      with Cons True show ?thesis by (rule assms(2))
    next
      case False
      show ?thesis
      proof (cases "gdr (w_apiCalls w) (q_id q) ps")
        case (Inl e)
        with Cons False show ?thesis by (rule assms(3))
      next
        case (Inr drs)
        let ?w1 = "w\<lparr> w_queue := rest, w_apiCalls := w_apiCalls w + 1,
                     w_expanded := w_expanded w + 1,
                     w_depthReached := max (w_depthReached w) (q_depth q + 1) \<rparr>"
        obtain capped w' where fr: "forReports maxN (q_depth q) drs ?w1 = (capped, w')"
          by (cases "forReports maxN (q_depth q) drs ?w1") auto
        have "P w'" if "\<not> capped"
        proof (rule less.IH)
          from fr that have "forReports maxN (q_depth q) drs ?w1 = (False, w')" by simp
          from forReports_measure [OF this] Cons
          show "length (w_queue w') + nat (maxN - int (length (w_nodesMap w')))
                  < length (w_queue w) + nat (maxN - int (length (w_nodesMap w)))"
            by simp
        qed
        with Cons False Inr fr show ?thesis by (rule assms(4))
      qed
    qed
  qed
qed

text \<open>The walk returns whenever every call of \<^verbatim>\<open>getDirectReports\<close> does.\<close>

lemma walkLoop_returns:
  assumes "\<And>k i p. \<exists>ds. gdr k i p = Inr ds"
  shows "\<exists>r. walkLoop gdr maxD maxN ps w = Inr r"
proof (induction w rule: walkLoop_cases_induct [where gdr = gdr and maxD = maxD and maxN = maxN
                            and ps = ps])
  case (finished w)
  then show ?case by (auto simp: walkLoop_done)
next
  case (skipped w q rest)
  then show ?case by (simp add: walkLoop_skip)
next
  case (failed w q rest e)
  with assms [of "w_apiCalls w" "q_id q" ps] show ?case by simp
next
  case (expanded w q rest drs capped w')
  then show ?case by (cases capped) (auto simp: walkLoop_expand)
qed

subsection \<open>The node cap\<close>

lemma mapSet_new: "\<not> mapHas m k \<Longrightarrow> mapSet m k v = m @ [(k, v)]"
  by (simp add: mapSet_def)

text \<open>Below the cap before a batch: at the cap after it when the loop left through the
  \<^verbatim>\<open>return\<close>, and below it otherwise.\<close>

lemma forReports_cap:
  "int (length (w_nodesMap w)) < maxN \<Longrightarrow> forReports maxN depth drs w = (capped, w') \<Longrightarrow>
   (if capped then int (length (w_nodesMap w')) = maxN else int (length (w_nodesMap w')) < maxN)"
proof (induction drs arbitrary: w)
  case Nil
  then show ?case by auto
next
  case (Cons p drs)
  let ?w1 = "w\<lparr> w_edges := w_edges w @ [\<lparr> leaderId = teamLeaderId p, personId = pid p \<rparr>],
               w_edgeDepths := w_edgeDepths w @ [depth] \<rparr>"
  show ?case
  proof (cases "mapHas (w_nodesMap w) (pid p)")
    case True
    with Cons.prems(2) have "forReports maxN depth drs ?w1 = (capped, w')" by simp
    from Cons.IH [OF _ this] Cons.prems(1) show ?thesis by simp
  next
    case False
    let ?w2 = "?w1\<lparr> w_nodesMap := w_nodesMap w @ [(pid p, p)] \<rparr>"
    show ?thesis
    proof (cases "int (length (w_nodesMap w)) + 1 \<ge> maxN")
      case True
      with False Cons.prems(2) have "capped" and "w' = ?w2"
        by (simp_all add: mapSet_new Let_def)
      with True Cons.prems(1) show ?thesis by simp
    next
      case over: False
      let ?w3 = "if (case directReportCount p of None \<Rightarrow> 0 | Some n \<Rightarrow> n) > 0
                 then ?w2\<lparr> w_queue := w_queue w @
                        [\<lparr> q_leaderId = teamLeaderId p, q_id = pid p, q_depth = depth + 1 \<rparr>] \<rparr>
                 else ?w2"
      from False over Cons.prems(2) have run: "forReports maxN depth drs ?w3 = (capped, w')"
        by (simp add: mapSet_new Let_def split: if_splits)
      from over have "int (length (w_nodesMap ?w3)) < maxN" by simp
      from Cons.IH [OF this run] show ?thesis .
    qed
  qed
qed

lemma walkLoop_cap:
  "int (length (w_nodesMap w)) < maxN \<Longrightarrow> walkLoop gdr maxD maxN ps w = Inr (trunc, w') \<Longrightarrow>
   (if trunc then int (length (w_nodesMap w')) = maxN else int (length (w_nodesMap w')) < maxN)"
proof (induction w rule: walkLoop_cases_induct [where gdr = gdr and maxD = maxD and maxN = maxN
                            and ps = ps])
  case (finished w)
  then show ?case by (simp add: walkLoop_done)
next
  case (skipped w q rest)
  then show ?case by (simp add: walkLoop_skip)
next
  case (failed w q rest e)
  then show ?case by (simp add: walkLoop_fail)
next
  case (expanded w q rest drs capped w1)
  let ?w0 = "w\<lparr> w_queue := rest, w_apiCalls := w_apiCalls w + 1, w_expanded := w_expanded w + 1,
               w_depthReached := max (w_depthReached w) (q_depth q + 1) \<rparr>"
  from expanded.prems(1) have "int (length (w_nodesMap ?w0)) < maxN" by simp
  from forReports_cap [OF this expanded.hyps(4)]
  have cap: "if capped then int (length (w_nodesMap w1)) = maxN
             else int (length (w_nodesMap w1)) < maxN" .
  show ?case
  proof (cases capped)
    case True
    with expanded.hyps expanded.prems(2) have "trunc" and "w' = w1"
      by (simp_all add: walkLoop_expand)
    with cap True show ?thesis by simp
  next
    case False
    with expanded.hyps expanded.prems(2) have "walkLoop gdr maxD maxN ps w1 = Inr (trunc, w')"
      by (simp add: walkLoop_expand)
    with expanded.IH False cap show ?thesis by simp
  qed
qed

text \<open>Once the cap is reached inside a batch, what follows in the batch is not looked at.\<close>

lemma forReports_stops:
  "fst (forReports maxN depth batch w) \<Longrightarrow>
   forReports maxN depth (batch @ rest) w = forReports maxN depth batch w"
proof (induction batch arbitrary: w)
  case Nil
  then show ?case by simp
next
  case (Cons p batch)
  then show ?case
    by (simp add: Let_def split: if_splits)
qed

lemma forReports_trips:
  "\<not> mapHas (w_nodesMap w) (pid p) \<Longrightarrow> maxN \<le> int (length (w_nodesMap w)) + 1 \<Longrightarrow>
   forReports maxN depth (p # rest) w
     = (True, w\<lparr> w_edges := w_edges w @ [\<lparr> leaderId = teamLeaderId p, personId = pid p \<rparr>],
                 w_edgeDepths := w_edgeDepths w @ [depth],
                 w_nodesMap := w_nodesMap w @ [(pid p, p)] \<rparr>)"
  by (simp add: mapSet_new Let_def)

subsection \<open>The depth cap\<close>

text \<open>Every edge is pushed during the expansion of a queue entry below the depth cap.\<close>

lemma forReports_depths:
  "forReports maxN depth drs w = (capped, w') \<Longrightarrow> int depth < maxD \<Longrightarrow>
   length (w_edgeDepths w) = length (w_edges w) \<Longrightarrow> (\<forall>d \<in> set (w_edgeDepths w). int d < maxD) \<Longrightarrow>
   length (w_edgeDepths w') = length (w_edges w') \<and> (\<forall>d \<in> set (w_edgeDepths w'). int d < maxD)"
proof (induction drs arbitrary: w)
  case Nil
  then show ?case by auto
next
  case (Cons p drs)
  from Cons.prems show ?case
    by (auto simp: Let_def split: if_splits dest!: Cons.IH)
qed

lemma walkLoop_depths:
  "walkLoop gdr maxD maxN ps w = Inr (trunc, w') \<Longrightarrow>
   length (w_edgeDepths w) = length (w_edges w) \<Longrightarrow> (\<forall>d \<in> set (w_edgeDepths w). int d < maxD) \<Longrightarrow>
   length (w_edgeDepths w') = length (w_edges w') \<and> (\<forall>d \<in> set (w_edgeDepths w'). int d < maxD)"
proof (induction w rule: walkLoop_cases_induct [where gdr = gdr and maxD = maxD and maxN = maxN
                            and ps = ps])
  case (finished w)
  then show ?case by (simp add: walkLoop_done)
next
  case (skipped w q rest)
  then show ?case by (simp add: walkLoop_skip)
next
  case (failed w q rest e)
  then show ?case by (simp add: walkLoop_fail)
next
  case (expanded w q rest drs capped w1)
  let ?w0 = "w\<lparr> w_queue := rest, w_apiCalls := w_apiCalls w + 1, w_expanded := w_expanded w + 1,
               w_depthReached := max (w_depthReached w) (q_depth q + 1) \<rparr>"
  from expanded.hyps(2) have below: "int (q_depth q) < maxD" by simp
  from expanded.prems have "length (w_edgeDepths ?w0) = length (w_edges ?w0)"
    and "\<forall>d \<in> set (w_edgeDepths ?w0). int d < maxD" by simp_all
  from forReports_depths [OF expanded.hyps(4) below this]
  have w1: "length (w_edgeDepths w1) = length (w_edges w1)
            \<and> (\<forall>d \<in> set (w_edgeDepths w1). int d < maxD)" .
  show ?case
  proof (cases capped)
    case True
    with expanded.hyps expanded.prems(1) have "w' = w1"
      by (simp add: walkLoop_expand)
    with w1 show ?thesis by simp
  next
    case False
    with expanded.hyps expanded.prems(1) have "walkLoop gdr maxD maxN ps w1 = Inr (trunc, w')"
      by (simp add: walkLoop_expand)
    with expanded.IH False w1 show ?thesis by simp
  qed
qed

subsection \<open>The claims about the caps\<close>

lemma getOrgSubtree_walk:
  "getOrgSubtree gp gdr key opts = Inr r \<longleftrightarrow>
   (\<exists>trunc w. subtreeWalk gp gdr key opts = Inr (trunc, w)
              \<and> r = mkResult (resolveManager gp key) trunc w)"
  by (auto simp: getOrgSubtree_def split: sum.splits)

lemma getOrgSubtree_returns:
  assumes "\<And>k i p. \<exists>ds. gdr k i p = Inr ds"
  shows "\<exists>r. getOrgSubtree gp gdr key opts = Inr r"
proof -
  from walkLoop_returns [of gdr, OF assms] obtain trunc w
    where "subtreeWalk gp gdr key opts = Inr (trunc, w)"
    unfolding subtreeWalk_def by (metis surj_pair)
  then show ?thesis by (simp add: getOrgSubtree_walk)
qed

text \<open>
  C1, as the code has it by design. Let \<open>M\<close> be the cap the walk works with: the larger of
  1 and \<^verbatim>\<open>opts.maxNodes\<close>, or 1000 when that is absent. Unless the seeded manager alone
  already fills the cap (the manager is seeded and \<open>M\<close> is 1), every result has at most
  \<open>M\<close> nodes, the seeded manager included, and \<^verbatim>\<open>truncated\<close> is true exactly when the
  number of nodes is \<open>M\<close>. The walk returns a result whenever no call of
  \<^verbatim>\<open>getDirectReports\<close> fails. Inside a batch, the insertion of a new node that reaches
  the cap ends the batch at once, with the edge and the node of that subordinate
  recorded and nothing of the rest of the batch looked at, and it ends the walk with
  that state, whatever the queue still holds.
\<close>

theorem getOrgSubtree_node_cap:
  "(int (length (seedNodes opts (resolveManager gp key))) < effMaxNodes opts
      \<and> getOrgSubtree gp gdr key opts = Inr r
    \<longrightarrow> int (length (nodes r)) \<le> effMaxNodes opts
        \<and> (truncated (stats r) \<longleftrightarrow> int (length (nodes r)) = effMaxNodes opts))
   \<and> effMaxNodes opts = max 1 (case maxNodes opts of None \<Rightarrow> 1000 | Some n \<Rightarrow> n)
   \<and> ((\<forall>k i p. \<exists>ds. gdr k i p = Inr ds) \<longrightarrow> (\<exists>r. getOrgSubtree gp gdr key opts = Inr r))
   \<and> (fst (forReports maxN depth batch w) \<longrightarrow>
        forReports maxN depth (batch @ rest) w = forReports maxN depth batch w)
   \<and> (\<not> mapHas (w_nodesMap w) (pid p) \<and> maxN \<le> int (length (w_nodesMap w)) + 1 \<longrightarrow>
        forReports maxN depth (p # rest) w
          = (True, w\<lparr> w_edges := w_edges w @ [\<lparr> leaderId = teamLeaderId p, personId = pid p \<rparr>],
                      w_edgeDepths := w_edgeDepths w @ [depth],
                      w_nodesMap := w_nodesMap w @ [(pid p, p)] \<rparr>))
   \<and> (w_queue w = q # qs \<and> \<not> maxD \<le> int (q_depth q)
        \<and> gdr (w_apiCalls w) (q_id q) ps = Inr drs
        \<and> forReports maxN (q_depth q) drs
             (w\<lparr> w_queue := qs, w_apiCalls := w_apiCalls w + 1, w_expanded := w_expanded w + 1,
                 w_depthReached := max (w_depthReached w) (q_depth q + 1) \<rparr>) = (True, w')
      \<longrightarrow> walkLoop gdr maxD maxN ps w = Inr (True, w'))"
proof (intro conjI impI)
  assume a: "int (length (seedNodes opts (resolveManager gp key))) < effMaxNodes opts
             \<and> getOrgSubtree gp gdr key opts = Inr r"
  then obtain trunc wf where run: "subtreeWalk gp gdr key opts = Inr (trunc, wf)"
    and r: "r = mkResult (resolveManager gp key) trunc wf"
    by (auto simp: getOrgSubtree_walk)
  from a have "int (length (w_nodesMap (initialWalk opts (resolveManager gp key) key)))
                 < effMaxNodes opts"
    by (simp add: initialWalk_def)
  from walkLoop_cap [OF this run [unfolded subtreeWalk_def]]
  have "if trunc then int (length (w_nodesMap wf)) = effMaxNodes opts
        else int (length (w_nodesMap wf)) < effMaxNodes opts" .
  with r show "int (length (nodes r)) \<le> effMaxNodes opts"
    and "truncated (stats r) \<longleftrightarrow> int (length (nodes r)) = effMaxNodes opts"
    by (auto simp: mkResult_def split: if_splits)
next
  show "effMaxNodes opts = max 1 (case maxNodes opts of None \<Rightarrow> 1000 | Some n \<Rightarrow> n)"
    by (simp add: effMaxNodes_def)
next
  assume "\<forall>k i p. \<exists>ds. gdr k i p = Inr ds"
  then show "\<exists>r. getOrgSubtree gp gdr key opts = Inr r"
    by (intro getOrgSubtree_returns) simp
next
  assume "fst (forReports maxN depth batch w)"
  then show "forReports maxN depth (batch @ rest) w = forReports maxN depth batch w"
    by (rule forReports_stops)
next
  assume "\<not> mapHas (w_nodesMap w) (pid p) \<and> maxN \<le> int (length (w_nodesMap w)) + 1"
  then show "forReports maxN depth (p # rest) w
          = (True, w\<lparr> w_edges := w_edges w @ [\<lparr> leaderId = teamLeaderId p, personId = pid p \<rparr>],
                      w_edgeDepths := w_edgeDepths w @ [depth],
                      w_nodesMap := w_nodesMap w @ [(pid p, p)] \<rparr>)"
    by (intro forReports_trips) simp_all
next
  assume "w_queue w = q # qs \<and> \<not> maxD \<le> int (q_depth q)
        \<and> gdr (w_apiCalls w) (q_id q) ps = Inr drs
        \<and> forReports maxN (q_depth q) drs
             (w\<lparr> w_queue := qs, w_apiCalls := w_apiCalls w + 1, w_expanded := w_expanded w + 1,
                 w_depthReached := max (w_depthReached w) (q_depth q + 1) \<rparr>) = (True, w')"
  then show "walkLoop gdr maxD maxN ps w = Inr (True, w')"
    using walkLoop_expand [of w q qs maxD gdr ps drs maxN True w'] by simp
qed

text \<open>The scenario of the specification with node cap 3: three nodes, truncated; A2,
  the rest of the batch of A, has neither a node nor an edge.\<close>

theorem getOrgSubtree_node_cap_witness:
  "getOrgSubtree exGetPerson exReports ''root'' (exSubtreeOpts False 2 3)
     = Inr \<lparr> manager = Some exRoot,
             nodes = [exPerson ''A'' ''root'' 2, exPerson ''B'' ''root'' 0,
                      exPerson ''A1'' ''A'' 0],
             edges = [\<lparr> leaderId = Some ''root'', personId = ''A'' \<rparr>,
                      \<lparr> leaderId = Some ''root'', personId = ''B'' \<rparr>,
                      \<lparr> leaderId = Some ''A'', personId = ''A1'' \<rparr>],
             stats = \<lparr> expanded = 2, enqueued = 3, apiCalls = 2, depthReached = 2,
                       truncated = True \<rparr> \<rparr>
   \<and> effMaxNodes (exSubtreeOpts False 2 3) = 3
   \<and> (\<exists>r. getOrgSubtree exGetPerson exReports ''root'' (exSubtreeOpts True 2 2) = Inr r
          \<and> int (length (nodes r)) \<le> 2 \<and> truncated (stats r))"
proof -
  have seed: "int (length (seedNodes (exSubtreeOpts True 2 2) (resolveManager exGetPerson ''root'')))
                < effMaxNodes (exSubtreeOpts True 2 2)"
    by (simp add: walk_eval)
  have run: "getOrgSubtree exGetPerson exReports ''root'' (exSubtreeOpts True 2 2)
     = Inr \<lparr> manager = Some exRoot,
             nodes = [exRoot, exPerson ''A'' ''root'' 2],
             edges = [\<lparr> leaderId = Some ''root'', personId = ''A'' \<rparr>],
             stats = \<lparr> expanded = 1, enqueued = 2, apiCalls = 1, depthReached = 1,
                       truncated = True \<rparr> \<rparr>"
    by (simp add: walk_eval)
  have cap: "effMaxNodes (exSubtreeOpts False 2 3) = 3" "effMaxNodes (exSubtreeOpts True 2 2) = 2"
    by (simp_all add: effMaxNodes_def exSubtreeOpts_def)
  from getOrgSubtree_node_cap [of "exSubtreeOpts True 2 2" exGetPerson "''root''" exReports] seed run
  have "int (length (nodes \<lparr> manager = Some exRoot,
             nodes = [exRoot, exPerson ''A'' ''root'' 2],
             edges = [\<lparr> leaderId = Some ''root'', personId = ''A'' \<rparr>],
             stats = \<lparr> expanded = 1, enqueued = 2, apiCalls = 1, depthReached = 1,
                       truncated = True \<rparr> \<rparr>)) \<le> effMaxNodes (exSubtreeOpts True 2 2)"
    by blast
  with run cap getOrgSubtree_scenario_capped show ?thesis
    by simp
qed

text \<open>
  C1 as stated fails on the code in three ways. With \<^verbatim>\<open>maxNodes: 0\<close> the walk works with
  the cap 1 and returns one node. With \<^verbatim>\<open>maxNodes: 1\<close> and the manager seeded, the result
  has two nodes: the manager and the first subordinate. And with \<^verbatim>\<open>maxNodes: 2\<close> on a root
  with two subordinates that have none, \<^verbatim>\<open>truncated\<close> is true although the queue is empty
  and the batch is finished at that moment: nothing was cut, and with \<^verbatim>\<open>maxNodes: 3\<close> the
  same nodes and edges come back with \<^verbatim>\<open>truncated\<close> false.
\<close>

theorem getOrgSubtree_node_cap_counterexample:
  "getOrgSubtree exGetPerson exReports ''root'' (exSubtreeOpts False 2 0)
     = Inr \<lparr> manager = Some exRoot,
             nodes = [exPerson ''A'' ''root'' 2],
             edges = [\<lparr> leaderId = Some ''root'', personId = ''A'' \<rparr>],
             stats = \<lparr> expanded = 1, enqueued = 1, apiCalls = 1, depthReached = 1,
                       truncated = True \<rparr> \<rparr>
   \<and> getOrgSubtree exGetPerson exReports ''root'' (exSubtreeOpts True 2 1)
     = Inr \<lparr> manager = Some exRoot,
             nodes = [exRoot, exPerson ''A'' ''root'' 2],
             edges = [\<lparr> leaderId = Some ''root'', personId = ''A'' \<rparr>],
             stats = \<lparr> expanded = 1, enqueued = 2, apiCalls = 1, depthReached = 1,
                       truncated = True \<rparr> \<rparr>
   \<and> subtreeWalk exGetPerson exLeafReports ''root'' (exSubtreeOpts False 2 2)
     = Inr (True,
            \<lparr> w_nodesMap = [(''B1'', exPerson ''B1'' ''root'' 0), (''B2'', exPerson ''B2'' ''root'' 0)],
              w_edges = [\<lparr> leaderId = Some ''root'', personId = ''B1'' \<rparr>,
                         \<lparr> leaderId = Some ''root'', personId = ''B2'' \<rparr>],
              w_queue = [], w_apiCalls = 1, w_expanded = 1, w_depthReached = 1,
              w_edgeDepths = [0, 0] \<rparr>)
   \<and> subtreeWalk exGetPerson exLeafReports ''root'' (exSubtreeOpts False 2 3)
     = Inr (False,
            \<lparr> w_nodesMap = [(''B1'', exPerson ''B1'' ''root'' 0), (''B2'', exPerson ''B2'' ''root'' 0)],
              w_edges = [\<lparr> leaderId = Some ''root'', personId = ''B1'' \<rparr>,
                         \<lparr> leaderId = Some ''root'', personId = ''B2'' \<rparr>],
              w_queue = [], w_apiCalls = 1, w_expanded = 1, w_depthReached = 1,
              w_edgeDepths = [0, 0] \<rparr>)"
  by (simp add: walk_eval)

text \<open>
  C4. A queue entry whose depth has reached the depth cap \<open>D\<close> is taken from the queue
  and only \<^verbatim>\<open>depthReached\<close> changes: the counter of the calls and every other variable
  stay, and the walk goes on as from that state. With a depth cap of zero or below, the
  walk therefore returns without a call and without an edge, whatever the service would
  answer. In every result, each edge was pushed during the expansion of a queue entry
  of depth below \<open>D\<close> (the list \<open>w_edgeDepths\<close> holds these depths, one for each edge), so
  none originates from a node found at depth \<open>D\<close> or deeper.
\<close>

theorem getOrgSubtree_depth_cap:
  "(w_queue w = q # rest \<and> maxD \<le> int (q_depth q)
      \<longrightarrow> walkLoop gdr maxD maxN ps w
          = walkLoop gdr maxD maxN ps
              (w\<lparr> w_queue := rest, w_depthReached := max (w_depthReached w) (q_depth q) \<rparr>))
   \<and> (effMaxDepth opts \<le> 0
      \<longrightarrow> getOrgSubtree gp gdr key opts
          = Inr \<lparr> manager = resolveManager gp key,
                  nodes = map snd (seedNodes opts (resolveManager gp key)),
                  edges = [],
                  stats = \<lparr> expanded = 0,
                            enqueued = length (seedNodes opts (resolveManager gp key)),
                            apiCalls = 0, depthReached = 0, truncated = False \<rparr> \<rparr>)
   \<and> (getOrgSubtree gp gdr key opts = Inr r
      \<longrightarrow> (\<exists>trunc wf. subtreeWalk gp gdr key opts = Inr (trunc, wf)
             \<and> r = mkResult (resolveManager gp key) trunc wf
             \<and> edges r = w_edges wf
             \<and> length (w_edgeDepths wf) = length (edges r)
             \<and> (\<forall>d \<in> set (w_edgeDepths wf). int d < effMaxDepth opts)))
   \<and> effMaxDepth opts = (case maxDepth opts of None \<Rightarrow> 6 | Some d \<Rightarrow> d)
   \<and> ((\<forall>k i p. \<exists>ds. gdr k i p = Inr ds) \<longrightarrow> (\<exists>r. getOrgSubtree gp gdr key opts = Inr r))"
proof (intro conjI impI)
  assume "w_queue w = q # rest \<and> maxD \<le> int (q_depth q)"
  then show "walkLoop gdr maxD maxN ps w
          = walkLoop gdr maxD maxN ps
              (w\<lparr> w_queue := rest, w_depthReached := max (w_depthReached w) (q_depth q) \<rparr>)"
    by (simp add: walkLoop_skip)
next
  assume zero: "effMaxDepth opts \<le> 0"
  let ?w0 = "initialWalk opts (resolveManager gp key) key"
  let ?q0 = "\<lparr> q_leaderId = None,
               q_id = (case resolveManager gp key of None \<Rightarrow> key | Some m \<Rightarrow> pid m),
               q_depth = 0 \<rparr>"
  have queue: "w_queue ?w0 = [?q0]"
    by (simp add: initialWalk_def)
  from zero have capped: "effMaxDepth opts \<le> int (q_depth ?q0)"
    by simp
  from walkLoop_skip [OF queue capped, of gdr "effMaxNodes opts" "clampPageSize (pageSize opts)"]
  have "subtreeWalk gp gdr key opts
      = Inr (False, ?w0\<lparr> w_queue := [] \<rparr>)"
    unfolding subtreeWalk_def
    by (simp add: walkLoop_done)
  then show "getOrgSubtree gp gdr key opts
          = Inr \<lparr> manager = resolveManager gp key,
                  nodes = map snd (seedNodes opts (resolveManager gp key)),
                  edges = [],
                  stats = \<lparr> expanded = 0,
                            enqueued = length (seedNodes opts (resolveManager gp key)),
                            apiCalls = 0, depthReached = 0, truncated = False \<rparr> \<rparr>"
    by (simp add: getOrgSubtree_def mkResult_def initialWalk_def)
next
  assume "getOrgSubtree gp gdr key opts = Inr r"
  then obtain trunc wf where run: "subtreeWalk gp gdr key opts = Inr (trunc, wf)"
    and r: "r = mkResult (resolveManager gp key) trunc wf"
    by (auto simp: getOrgSubtree_walk)
  from walkLoop_depths [OF run [unfolded subtreeWalk_def]]
  have "length (w_edgeDepths wf) = length (w_edges wf)
        \<and> (\<forall>d \<in> set (w_edgeDepths wf). int d < effMaxDepth opts)"
    by (simp add: initialWalk_def)
  with run r show "\<exists>trunc wf. subtreeWalk gp gdr key opts = Inr (trunc, wf)
             \<and> r = mkResult (resolveManager gp key) trunc wf
             \<and> edges r = w_edges wf
             \<and> length (w_edgeDepths wf) = length (edges r)
             \<and> (\<forall>d \<in> set (w_edgeDepths wf). int d < effMaxDepth opts)"
    by (auto simp: mkResult_def)
next
  show "effMaxDepth opts = (case maxDepth opts of None \<Rightarrow> 6 | Some d \<Rightarrow> d)"
    by (simp add: effMaxDepth_def)
next
  assume "\<forall>k i p. \<exists>ds. gdr k i p = Inr ds"
  then show "\<exists>r. getOrgSubtree gp gdr key opts = Inr r"
    by (intro getOrgSubtree_returns) simp
qed

text \<open>The scenario with depth cap 1: the root is expanded, A waits in the queue at depth
  1 and is not expanded; one call, two edges, both pushed at depth 0.\<close>

theorem getOrgSubtree_depth_cap_witness:
  "subtreeWalk exGetPerson exReports ''root'' (exSubtreeOpts False 1 100)
     = Inr (False,
            \<lparr> w_nodesMap = [(''A'', exPerson ''A'' ''root'' 2), (''B'', exPerson ''B'' ''root'' 0)],
              w_edges = [\<lparr> leaderId = Some ''root'', personId = ''A'' \<rparr>,
                         \<lparr> leaderId = Some ''root'', personId = ''B'' \<rparr>],
              w_queue = [], w_apiCalls = 1, w_expanded = 1, w_depthReached = 1,
              w_edgeDepths = [0, 0] \<rparr>)
   \<and> getOrgSubtree exGetPerson exReports ''root'' (exSubtreeOpts False 0 100)
     = Inr \<lparr> manager = Some exRoot, nodes = [], edges = [],
             stats = \<lparr> expanded = 0, enqueued = 0, apiCalls = 0, depthReached = 0,
                       truncated = False \<rparr> \<rparr>
   \<and> (\<exists>r. getOrgSubtree exGetPerson exReports ''root'' (exSubtreeOpts False 1 100) = Inr r
          \<and> edges r = [\<lparr> leaderId = Some ''root'', personId = ''A'' \<rparr>,
                        \<lparr> leaderId = Some ''root'', personId = ''B'' \<rparr>]
          \<and> apiCalls (stats r) = 1)"
proof -
  have walk: "subtreeWalk exGetPerson exReports ''root'' (exSubtreeOpts False 1 100)
     = Inr (False,
            \<lparr> w_nodesMap = [(''A'', exPerson ''A'' ''root'' 2), (''B'', exPerson ''B'' ''root'' 0)],
              w_edges = [\<lparr> leaderId = Some ''root'', personId = ''A'' \<rparr>,
                         \<lparr> leaderId = Some ''root'', personId = ''B'' \<rparr>],
              w_queue = [], w_apiCalls = 1, w_expanded = 1, w_depthReached = 1,
              w_edgeDepths = [0, 0] \<rparr>)"
    by (simp add: walk_eval)
  have zero: "effMaxDepth (exSubtreeOpts False 0 100) \<le> 0"
    by (simp add: effMaxDepth_def exSubtreeOpts_def)
  from getOrgSubtree_depth_cap [where opts = "exSubtreeOpts False 0 100" and gp = exGetPerson
         and gdr = exReports and key = "''root''"] zero
  have none: "getOrgSubtree exGetPerson exReports ''root'' (exSubtreeOpts False 0 100)
     = Inr \<lparr> manager = Some exRoot, nodes = [], edges = [],
             stats = \<lparr> expanded = 0, enqueued = 0, apiCalls = 0, depthReached = 0,
                       truncated = False \<rparr> \<rparr>"
    by (simp add: resolveManager_def seedNodes_def exGetPerson_def exSubtreeOpts_def)
  from walk have "getOrgSubtree exGetPerson exReports ''root'' (exSubtreeOpts False 1 100)
     = Inr (mkResult (Some exRoot) False
            \<lparr> w_nodesMap = [(''A'', exPerson ''A'' ''root'' 2), (''B'', exPerson ''B'' ''root'' 0)],
              w_edges = [\<lparr> leaderId = Some ''root'', personId = ''A'' \<rparr>,
                         \<lparr> leaderId = Some ''root'', personId = ''B'' \<rparr>],
              w_queue = [], w_apiCalls = 1, w_expanded = 1, w_depthReached = 1,
              w_edgeDepths = [0, 0] \<rparr>)"
    by (simp add: getOrgSubtree_def resolveManager_def exGetPerson_def)
  then have "\<exists>r. getOrgSubtree exGetPerson exReports ''root'' (exSubtreeOpts False 1 100) = Inr r
          \<and> edges r = [\<lparr> leaderId = Some ''root'', personId = ''A'' \<rparr>,
                        \<lparr> leaderId = Some ''root'', personId = ''B'' \<rparr>]
          \<and> apiCalls (stats r) = 1"
    by (simp add: mkResult_def)
  with walk none show ?thesis by (intro conjI)
qed

end
